theory Spec2Isabelle
  imports Complex_Main "HOL-Library.Sublist" "HOL-Library.Multiset"
begin

section \<open>Data model (src/shared/models.js, src/shared/constants.js)\<close>

text \<open>
  A JavaScript number that the code reads as a count: an integer, or \<open>NaN\<close> (what
  \<open>parseInt\<close> gives for an empty input field in options.js).
\<close>

datatype jsnum = NaN | Num int

fun truthy :: "jsnum \<Rightarrow> bool" where
  "truthy NaN = False"
| "truthy (Num n) = (n \<noteq> 0)"

text \<open>The fields of a Video that the storage manager, the API handler and the feed page read.\<close>

record video =
  video_id :: string
  title :: string
  channelTitle :: string
  channelId :: string
  defaultLanguage :: string
  defaultAudioLanguage :: string
  regionCode :: string
  capturedAt :: int
  viewCount :: int

record settings =
  apiKey :: string
  autoCapture :: bool
  captureInterval :: jsnum
  maxStoredVideos :: jsnum
  targetVideoCount :: jsnum

text \<open>The settings blob as stored: any field may be missing.\<close>

record stored_settings =
  s_apiKey :: "string option"
  s_autoCapture :: "bool option"
  s_captureInterval :: "jsnum option"
  s_maxStoredVideos :: "jsnum option"
  s_targetVideoCount :: "jsnum option"

record capture_entry =
  timestamp :: int
  videoCount :: nat

text \<open>
  The keys of chrome.storage.local that the storage manager uses (STORAGE\_KEYS);
  \<open>None\<close> is a key that was never written.
\<close>

record storage =
  st_settings :: "stored_settings option"
  st_videos :: "video list option"
  st_lastCaptureTimestamp :: "int option"
  st_captureHistory :: "capture_entry list option"

definition DEFAULT_SETTINGS :: settings where
  "DEFAULT_SETTINGS =
     \<lparr>apiKey = [], autoCapture = False, captureInterval = Num 60,
      maxStoredVideos = Num 500, targetVideoCount = Num 100\<rparr>"

definition MAX_SIZE_BYTES :: nat where
  "MAX_SIZE_BYTES = 10 * 1024 * 1024"

definition BATCH_SIZE :: nat where
  "BATCH_SIZE = 50"

section \<open>Array helpers\<close>

text \<open>
  \<open>array.slice(0, e)\<close> for an integer \<open>e\<close>: a negative end counts from the end of
  the array.
\<close>

definition slice0 :: "'a list \<Rightarrow> int \<Rightarrow> 'a list" where
  "slice0 xs e = (if e < 0 then take (nat (int (length xs) + e)) xs else take (nat e) xs)"

text \<open>\<open>array.slice(-k)\<close> for \<open>k > 0\<close>: the last \<open>k\<close> elements.\<close>

definition sliceLast :: "nat \<Rightarrow> 'a list \<Rightarrow> 'a list" where
  "sliceLast k xs = drop (length xs - k) xs"

text \<open>
  \<open>array.sort(cmp)\<close>: ECMAScript fixes the result for a consistent comparator, the
  sorted arrangement in which elements that compare equal keep their order. Insertion from
  the right, in front of the first element that does not compare smaller, computes it.
\<close>

fun insertBy :: "('a \<Rightarrow> 'a \<Rightarrow> int) \<Rightarrow> 'a \<Rightarrow> 'a list \<Rightarrow> 'a list" where
  "insertBy cmp x [] = [x]"
| "insertBy cmp x (y # ys) = (if cmp x y \<le> 0 then x # y # ys else y # insertBy cmp x ys)"

fun js_sort :: "('a \<Rightarrow> 'a \<Rightarrow> int) \<Rightarrow> 'a list \<Rightarrow> 'a list" where
  "js_sort cmp [] = []"
| "js_sort cmp (x # xs) = insertBy cmp x (js_sort cmp xs)"

section \<open>shared/utils.js\<close>

text \<open>\<open>deduplicateBy\<close>: a filter whose predicate records the keys it has seen.\<close>

fun dedupFrom :: "('a \<Rightarrow> 'k) \<Rightarrow> 'k list \<Rightarrow> 'a list \<Rightarrow> 'a list" where
  "dedupFrom key seen [] = []"
| "dedupFrom key seen (item # rest) =
     (if key item \<in> set seen then dedupFrom key seen rest
      else item # dedupFrom key (key item # seen) rest)"

definition deduplicateBy :: "'a list \<Rightarrow> ('a \<Rightarrow> 'k) \<Rightarrow> 'a list" where
  "deduplicateBy array key = dedupFrom key [] array"

section \<open>background/storage-manager.js\<close>

definition getVideos :: "storage \<Rightarrow> video list" where
  "getVideos s = (case st_videos s of None \<Rightarrow> [] | Some vs \<Rightarrow> vs)"

definition getCaptureHistory :: "storage \<Rightarrow> capture_entry list" where
  "getCaptureHistory s = (case st_captureHistory s of None \<Rightarrow> [] | Some h \<Rightarrow> h)"

text \<open>\<open>{ ...DEFAULT_SETTINGS, ...(stored || {}) }\<close>: a stored field replaces the default.\<close>

definition spread :: "settings \<Rightarrow> stored_settings \<Rightarrow> settings" where
  "spread d b =
     \<lparr>apiKey = (case s_apiKey b of None \<Rightarrow> apiKey d | Some v \<Rightarrow> v),
      autoCapture = (case s_autoCapture b of None \<Rightarrow> autoCapture d | Some v \<Rightarrow> v),
      captureInterval = (case s_captureInterval b of None \<Rightarrow> captureInterval d | Some v \<Rightarrow> v),
      maxStoredVideos = (case s_maxStoredVideos b of None \<Rightarrow> maxStoredVideos d | Some v \<Rightarrow> v),
      targetVideoCount =
        (case s_targetVideoCount b of None \<Rightarrow> targetVideoCount d | Some v \<Rightarrow> v)\<rparr>"

definition getSettings :: "storage \<Rightarrow> settings" where
  "getSettings s =
     (case st_settings s of None \<Rightarrow> DEFAULT_SETTINGS | Some b \<Rightarrow> spread DEFAULT_SETTINGS b)"

text \<open>
  Numbers that are not counts are rationals, and every floating-point operation of the
  source rounds its exact result with \<open>rnd\<close>, a parameter that stands for the rounding of
  IEEE 754 doubles. \<open>js_rounding\<close> lists what the theorems below use of it: it is
  monotone, it leaves array lengths, one half and three quarters as they are, and the two
  products \<open>0.8 * 100\<close> and \<open>0.6 * 100\<close> of storage-manager.js come out as 80 and 60.
\<close>

definition js_rounding :: "(rat \<Rightarrow> rat) \<Rightarrow> bool" where
  "js_rounding rnd \<longleftrightarrow>
     (\<forall>x y. x \<le> y \<longrightarrow> rnd x \<le> rnd y) \<and>
     (\<forall>k::nat. k < 2 ^ 32 \<longrightarrow> rnd (of_nat k) = of_nat k) \<and>
     rnd (1 / 2) = 1 / 2 \<and> rnd (3 / 4) = 3 / 4 \<and>
     rnd (rnd (8 / 10) * 100) = 80 \<and> rnd (rnd (6 / 10) * 100) = 60"

definition WARNING_THRESHOLD :: "(rat \<Rightarrow> rat) \<Rightarrow> rat" where
  "WARNING_THRESHOLD rnd = rnd (8 / 10)"

definition EVICTION_TARGET :: "(rat \<Rightarrow> rat) \<Rightarrow> rat" where
  "EVICTION_TARGET rnd = rnd (6 / 10)"

text \<open>
  \<open>x.toFixed(2)\<close> read back as a number, for \<open>x \<ge> 0\<close>: the nearest multiple of one
  hundredth, the larger one on a tie.
\<close>

definition toFixed2 :: "(rat \<Rightarrow> rat) \<Rightarrow> rat \<Rightarrow> rat" where
  "toFixed2 rnd x = rnd (of_int \<lfloor>x * 100 + 1 / 2\<rfloor> / 100)"

record usage =
  bytesInUse :: nat
  maxBytes :: nat
  percentage :: rat
  isNearLimit :: bool

text \<open>\<open>bytes\<close> is what \<open>chrome.storage.local.getBytesInUse()\<close> returns.\<close>

definition getStorageUsage :: "(rat \<Rightarrow> rat) \<Rightarrow> nat \<Rightarrow> usage" where
  "getStorageUsage rnd bytes =
     (let percentage = rnd (rnd (of_nat bytes / of_nat MAX_SIZE_BYTES) * 100)
      in \<lparr>bytesInUse = bytes, maxBytes = MAX_SIZE_BYTES,
          percentage = toFixed2 rnd percentage,
          isNearLimit = (percentage > rnd (WARNING_THRESHOLD rnd * 100))\<rparr>)"

definition targetCount :: "(rat \<Rightarrow> rat) \<Rightarrow> nat \<Rightarrow> rat \<Rightarrow> int" where
  "targetCount rnd len pct =
     (let targetPercentage = rnd (EVICTION_TARGET rnd * 100)
      in \<lfloor>rnd (of_nat len * rnd (targetPercentage / pct))\<rfloor>)"

definition checkAndEvictIfNeeded ::
  "(rat \<Rightarrow> rat) \<Rightarrow> nat \<Rightarrow> video list \<Rightarrow> storage \<Rightarrow> video list \<times> storage" where
  "checkAndEvictIfNeeded rnd bytes videos s =
     (let usage = getStorageUsage rnd bytes
      in if percentage usage > rnd (WARNING_THRESHOLD rnd * 100)
         then (let evictedVideos = slice0 videos (targetCount rnd (length videos) (percentage usage))
               in (evictedVideos, s\<lparr>st_videos := Some evictedVideos\<rparr>))
         else (videos, s))"

definition updateCaptureHistory :: "int \<Rightarrow> nat \<Rightarrow> storage \<Rightarrow> storage" where
  "updateCaptureHistory now cnt s =
     (let history = getCaptureHistory s @ [\<lparr>timestamp = now, videoCount = cnt\<rparr>];
          trimmedHistory = sliceLast 50 history
      in s\<lparr>st_captureHistory := Some trimmedHistory\<rparr>)"

definition byCapturedAtDesc :: "video \<Rightarrow> video \<Rightarrow> int" where
  "byCapturedAtDesc a b = capturedAt b - capturedAt a"

definition byViewCountDesc :: "video \<Rightarrow> video \<Rightarrow> int" where
  "byViewCountDesc a b = viewCount b - viewCount a"

text \<open>\<open>settings.maxStoredVideos || 500\<close>\<close>

definition maxVideosOf :: "settings \<Rightarrow> int" where
  "maxVideosOf st =
     (let m = maxStoredVideos st
      in if truthy m then (case m of Num n \<Rightarrow> n | NaN \<Rightarrow> 500) else 500)"

text \<open>The collection that \<open>saveVideos\<close> calls \<open>videosToStore\<close>.\<close>

definition videosToStore :: "video list \<Rightarrow> storage \<Rightarrow> video list" where
  "videosToStore newVideos s =
     (let existingVideos = getVideos s;
          allVideos = existingVideos @ newVideos;
          uniqueVideos = js_sort byCapturedAtDesc (deduplicateBy allVideos video_id);
          maxVideos = maxVideosOf (getSettings s)
      in if int (length uniqueVideos) > maxVideos then slice0 uniqueVideos maxVideos
         else uniqueVideos)"

text \<open>
  \<open>saveVideos\<close>: \<open>bytes\<close> is the reading of the store's size, \<open>now1\<close> and \<open>now2\<close> are
  the two readings of \<open>Date.now()\<close>. The value that \<open>checkAndEvictIfNeeded\<close> returns
  is not used by the source, only its write to the store is kept.
\<close>

definition saveVideos ::
  "(rat \<Rightarrow> rat) \<Rightarrow> nat \<Rightarrow> int \<Rightarrow> int \<Rightarrow> video list \<Rightarrow> storage \<Rightarrow> storage" where
  "saveVideos rnd bytes now1 now2 newVideos s =
     (if newVideos = [] then s
      else
        (let toStore = videosToStore newVideos s;
             s1 = snd (checkAndEvictIfNeeded rnd bytes toStore s);
             s2 = s1\<lparr>st_videos := Some toStore, st_lastCaptureTimestamp := Some now1\<rparr>
         in updateCaptureHistory now2 (length newVideos) s2))"


text \<open>
  \<open>sorted.sort(...)\<close> in \<open>sortVideos\<close>; \<open>localeCompare\<close> is the browser's
  \<open>String.prototype.localeCompare\<close>. \<open>None\<close> is an absent sort key.
\<close>

definition byTitle :: "(string \<Rightarrow> string \<Rightarrow> int) \<Rightarrow> video \<Rightarrow> video \<Rightarrow> int" where
  "byTitle localeCompare a b = localeCompare (title a) (title b)"

definition sortVideos ::
  "(string \<Rightarrow> string \<Rightarrow> int) \<Rightarrow> video list \<Rightarrow> string option \<Rightarrow> video list" where
  "sortVideos localeCompare videos sortKey =
     (if sortKey = Some ''date'' then js_sort byCapturedAtDesc videos
      else if sortKey = Some ''views'' then js_sort byViewCountDesc videos
      else if sortKey = Some ''title'' then js_sort (byTitle localeCompare) videos
      else js_sort byCapturedAtDesc videos)"

text \<open>
  The filter object of the feed page (\<open>currentFilters\<close>); the storage manager reads the
  first three fields of it. An absent list is the empty list.
\<close>

record filters =
  selectedLanguages :: "string list"
  selectedCountries :: "string list"
  sortBy :: "string option"
  searchQuery :: string

definition applyFilters ::
  "(string \<Rightarrow> string \<Rightarrow> int) \<Rightarrow> video list \<Rightarrow> filters \<Rightarrow> video list" where
  "applyFilters localeCompare videos f =
     (let filtered = videos;
          filtered =
            (if selectedLanguages f \<noteq> []
             then filter (\<lambda>video. defaultLanguage video \<in> set (selectedLanguages f) \<or>
                                  defaultAudioLanguage video \<in> set (selectedLanguages f)) filtered
             else filtered);
          filtered =
            (if selectedCountries f \<noteq> []
             then filter (\<lambda>video. regionCode video \<in> set (selectedCountries f)) filtered
             else filtered)
      in if sortBy f \<noteq> None \<and> sortBy f \<noteq> Some []
         then sortVideos localeCompare filtered (sortBy f) else filtered)"

text \<open>
  A consistent comparator, as \<open>Array.prototype.sort\<close> asks for: any two elements are
  comparable, and the comparison is transitive.
\<close>

definition consistent :: "('a \<Rightarrow> 'a \<Rightarrow> int) \<Rightarrow> bool" where
  "consistent cmp \<longleftrightarrow>
     (\<forall>a b. cmp a b \<le> 0 \<or> cmp b a \<le> 0) \<and>
     (\<forall>a b c. cmp a b \<le> 0 \<and> cmp b c \<le> 0 \<longrightarrow> cmp a c \<le> 0)"

section \<open>pages/feed/feed.js\<close>

text \<open>
  \<open>toLowerCase\<close> and \<open>trim\<close> are the browser's string functions, taken as
  parameters; \<open>s.includes(q)\<close> on strings is \<open>sublist q s\<close>.
\<close>

definition handleSearchChange ::
  "(string \<Rightarrow> string) \<Rightarrow> (string \<Rightarrow> string) \<Rightarrow> string \<Rightarrow> filters \<Rightarrow> filters" where
  "handleSearchChange toLowerCase trim input currentFilters =
     currentFilters\<lparr>searchQuery := toLowerCase (trim input)\<rparr>"

text \<open>The callback that \<open>applyFilters\<close> of feed.js gives to \<open>allVideos.filter\<close>.\<close>

definition keepVideo :: "(string \<Rightarrow> string) \<Rightarrow> filters \<Rightarrow> video \<Rightarrow> bool" where
  "keepVideo toLowerCase currentFilters video =
     (if selectedLanguages currentFilters \<noteq> [] \<and>
         defaultLanguage video \<notin> set (selectedLanguages currentFilters) \<and>
         defaultAudioLanguage video \<notin> set (selectedLanguages currentFilters)
      then False
      else if selectedCountries currentFilters \<noteq> [] \<and>
              regionCode video \<notin> set (selectedCountries currentFilters)
      then False
      else if searchQuery currentFilters \<noteq> [] \<and>
              \<not> sublist (searchQuery currentFilters) (toLowerCase (title video)) \<and>
              \<not> sublist (searchQuery currentFilters) (toLowerCase (channelTitle video))
      then False
      else True)"

text \<open>\<open>sortVideos\<close> of feed.js: its \<open>switch\<close> has no default branch.\<close>

definition sortVideos_feed ::
  "(string \<Rightarrow> string \<Rightarrow> int) \<Rightarrow> video list \<Rightarrow> string option \<Rightarrow> video list" where
  "sortVideos_feed localeCompare filteredVideos sortKey =
     (if sortKey = Some ''date'' then js_sort byCapturedAtDesc filteredVideos
      else if sortKey = Some ''views'' then js_sort byViewCountDesc filteredVideos
      else if sortKey = Some ''title'' then js_sort (byTitle localeCompare) filteredVideos
      else filteredVideos)"

definition applyFilters_feed ::
  "(string \<Rightarrow> string) \<Rightarrow> (string \<Rightarrow> string \<Rightarrow> int) \<Rightarrow> video list \<Rightarrow> filters \<Rightarrow> video list" where
  "applyFilters_feed toLowerCase localeCompare allVideos currentFilters =
     sortVideos_feed localeCompare (filter (keepVideo toLowerCase currentFilters) allVideos)
       (sortBy currentFilters)"

section \<open>background/api-handler.js\<close>

datatype error = MissingCredential | RemoteRequestFailed nat "string option" | Thrown

datatype request = VideosRequest "string list" string | ChannelsRequest "string list" string

record channel =
  country :: "string option"
  channel_title :: string
  customUrl :: string

text \<open>
  What the remote API answers to a videos request: \<open>fetch\<close>, \<open>response.json()\<close> or
  \<open>parseApiResponse\<close> throws; a status that is not ok, with the message of the error
  body if it has one; or the videos that \<open>parseApiResponse\<close> makes of the body.
\<close>

datatype videos_reply = VideosThrew | VideosNotOk nat "string option" | VideosOk "video list"

text \<open>To a channels request: the items as pairs of \<open>item.id\<close> and the channel entry.\<close>

datatype channels_reply = ChannelsThrew | ChannelsNotOk | ChannelsOk "(string \<times> channel) list"

text \<open>The remote API; an answer may depend on the requests made so far.\<close>

record network =
  videosEndpoint :: "request list \<Rightarrow> string list \<Rightarrow> string \<Rightarrow> videos_reply"
  channelsEndpoint :: "request list \<Rightarrow> string list \<Rightarrow> string \<Rightarrow> channels_reply"

text \<open>What the API handler runs in: the requests issued so far, and the extension's store.\<close>

record world =
  requests :: "request list"
  store :: storage

text \<open>
  \<open>chunkArray\<close>: the loop \<open>for (i = 0; i < array.length; i += size)\<close>. With
  \<open>size = 0\<close> (\<open>sz\<close> below) on a non-empty array the loop never advances: no return, \<open>None\<close>.
\<close>

function chunkFrom :: "nat \<Rightarrow> 'a list \<Rightarrow> nat \<Rightarrow> 'a list list" where
  "chunkFrom i array sz =
     (if i < length array \<and> 0 < sz
      then take sz (drop i array) # chunkFrom (i + sz) array sz else [])"
  by pat_completeness auto
termination
  by (relation "measure (\<lambda>(i, array, sz). length array - i)") auto

definition chunkArray :: "'a list \<Rightarrow> nat \<Rightarrow> 'a list list option" where
  "chunkArray array sz =
     (if sz = 0 \<and> array \<noteq> [] then None else Some (chunkFrom 0 array sz))"

definition fetchVideoBatch ::
  "network \<Rightarrow> string list \<Rightarrow> string \<Rightarrow> world \<Rightarrow> (error + video list) \<times> world" where
  "fetchVideoBatch net videoIds key w =
     (let w' = w\<lparr>requests := requests w @ [VideosRequest videoIds key]\<rparr>
      in case videosEndpoint net (requests w) videoIds key of
           VideosThrew \<Rightarrow> (Inl Thrown, w')
         | VideosNotOk status message \<Rightarrow> (Inl (RemoteRequestFailed status message), w')
         | VideosOk videos \<Rightarrow> (Inr videos, w'))"

definition fetchChannelDetails ::
  "network \<Rightarrow> string list \<Rightarrow> string \<Rightarrow> world \<Rightarrow> (string \<rightharpoonup> channel) \<times> world" where
  "fetchChannelDetails net channelIds key w =
     (if channelIds = [] then (Map.empty, w)
      else
        (let w' = w\<lparr>requests := requests w @ [ChannelsRequest channelIds key]\<rparr>
         in case channelsEndpoint net (requests w) channelIds key of
              ChannelsThrew \<Rightarrow> (Map.empty, w')
            | ChannelsNotOk \<Rightarrow> (Map.empty, w')
            | ChannelsOk items \<Rightarrow> (map_of (rev items), w')))"

definition mergeCountry :: "(string \<rightharpoonup> channel) \<Rightarrow> video \<Rightarrow> video" where
  "mergeCountry channelDetails video =
     (case channelDetails (channelId video) of
        None \<Rightarrow> video
      | Some channel \<Rightarrow>
          (case country channel of
             None \<Rightarrow> video
           | Some c \<Rightarrow> if c \<noteq> [] then video\<lparr>regionCode := c\<rparr> else video))"

text \<open>The body of the \<open>try\<close> block in the loop of \<open>fetchVideoDetails\<close>.\<close>

definition fetchChunk ::
  "network \<Rightarrow> string list \<Rightarrow> string \<Rightarrow> world \<Rightarrow> (error + video list) \<times> world" where
  "fetchChunk net chunk key w =
     (case fetchVideoBatch net chunk key w of
        (Inl e, w1) \<Rightarrow> (Inl e, w1)
      | (Inr videos, w1) \<Rightarrow>
          (let channelIds = deduplicateBy (map channelId videos) (\<lambda>c. c);
               (channelDetails, w2) = fetchChannelDetails net channelIds key w1
           in (Inr (map (mergeCountry channelDetails) videos), w2)))"

text \<open>
  The loop over the chunks: a chunk whose \<open>try\<close> block throws is logged and skipped. The
  pause between chunks changes nothing that is modelled here.
\<close>

fun fetchLoop ::
  "network \<Rightarrow> string \<Rightarrow> string list list \<Rightarrow> video list \<Rightarrow> world \<Rightarrow> video list \<times> world" where
  "fetchLoop net key [] allVideos w = (allVideos, w)"
| "fetchLoop net key (chunk # chunks) allVideos w =
     (case fetchChunk net chunk key w of
        (Inr videos, w') \<Rightarrow> fetchLoop net key chunks (allVideos @ videos) w'
      | (Inl e, w') \<Rightarrow> fetchLoop net key chunks allVideos w')"

definition fetchVideoDetails ::
  "network \<Rightarrow> string list \<Rightarrow> string \<Rightarrow> world \<Rightarrow> ((error + video list) \<times> world) option" where
  "fetchVideoDetails net videoIds key w =
     (if videoIds = [] then Some (Inr [], w)
      else if key = [] then Some (Inl MissingCredential, w)
      else
        (case chunkArray videoIds BATCH_SIZE of
           None \<Rightarrow> None
         | Some chunks \<Rightarrow>
             (let (allVideos, w') = fetchLoop net key chunks [] w in Some (Inr allVideos, w'))))"

text \<open>
  What each chunk's \<open>try\<close> block comes to, in chunk order, each chunk run in the world
  that the chunk before it left.
\<close>

fun chunkOutcomes ::
  "network \<Rightarrow> string \<Rightarrow> string list list \<Rightarrow> world \<Rightarrow> (error + video list) list" where
  "chunkOutcomes net key [] w = []"
| "chunkOutcomes net key (chunk # chunks) w =
     (case fetchChunk net chunk key w of (r, w') \<Rightarrow> r # chunkOutcomes net key chunks w')"

fun recordsOf :: "error + video list \<Rightarrow> video list" where
  "recordsOf (Inl e) = []"
| "recordsOf (Inr videos) = videos"

section \<open>Successive merges\<close>

text \<open>One merge: the reading of the store's size, the two clock readings, the new records.\<close>

type_synonym merge_input = "nat \<times> int \<times> int \<times> video list"

fun saveVideosAll :: "(rat \<Rightarrow> rat) \<Rightarrow> merge_input list \<Rightarrow> storage \<Rightarrow> storage" where
  "saveVideosAll rnd [] s = s"
| "saveVideosAll rnd ((bytes, now1, now2, newVideos) # rest) s =
     saveVideosAll rnd rest (saveVideos rnd bytes now1 now2 newVideos s)"

section \<open>pages/options/options.js\<close>

text \<open>
  \<open>x < k\<close> and \<open>x > k\<close> for a number \<open>x\<close> and an integer \<open>k\<close>: a comparison with
  \<open>NaN\<close> is false.
\<close>

fun js_less :: "jsnum \<Rightarrow> int \<Rightarrow> bool" where
  "js_less NaN k = False"
| "js_less (Num n) k = (n < k)"

fun js_greater :: "jsnum \<Rightarrow> int \<Rightarrow> bool" where
  "js_greater NaN k = False"
| "js_greater (Num n) k = (n > k)"

text \<open>The page's \<open>settings\<close> object after \<open>loadSettings\<close>.\<close>

definition loadSettings :: "storage \<Rightarrow> settings" where
  "loadSettings s =
     (case st_settings s of None \<Rightarrow> DEFAULT_SETTINGS | Some b \<Rightarrow> spread DEFAULT_SETTINGS b)"

text \<open>The \<open>settings\<close> object as the store keeps it: every field is there.\<close>

definition storedObject :: "settings \<Rightarrow> stored_settings" where
  "storedObject st =
     \<lparr>s_apiKey = Some (apiKey st), s_autoCapture = Some (autoCapture st),
      s_captureInterval = Some (captureInterval st),
      s_maxStoredVideos = Some (maxStoredVideos st),
      s_targetVideoCount = Some (targetVideoCount st)\<rparr>"

text \<open>
  \<open>saveAllSettings\<close>: \<open>apiKeyValue\<close> is the trimmed text of the API key field,
  \<open>targetVideoCountValue\<close> and \<open>maxStoredVideosValue\<close> are what \<open>parseInt\<close> makes of
  the two number fields, \<open>settingsObject\<close> is the page's \<open>settings\<close> object. An input
  that is refused shows a message and writes nothing. The result is the page's object and
  the store afterwards.
\<close>

definition saveAllSettings ::
  "string \<Rightarrow> jsnum \<Rightarrow> jsnum \<Rightarrow> settings \<Rightarrow> storage \<Rightarrow> settings \<times> storage" where
  "saveAllSettings apiKeyValue targetVideoCountValue maxStoredVideosValue settingsObject s =
     (if apiKeyValue = [] then (settingsObject, s)
      else if js_less targetVideoCountValue 20 \<or> js_greater targetVideoCountValue 200
      then (settingsObject, s)
      else if js_less maxStoredVideosValue 50 \<or> js_greater maxStoredVideosValue 1000
      then (settingsObject, s)
      else
        (let settingsObject' =
               settingsObject\<lparr>apiKey := apiKeyValue, targetVideoCount := targetVideoCountValue,
                 maxStoredVideos := maxStoredVideosValue\<rparr>
         in (settingsObject', s\<lparr>st_settings := Some (storedObject settingsObject')\<rparr>)))"

section \<open>Concrete records for the checked examples\<close>

definition mkVideo :: "string \<Rightarrow> int \<Rightarrow> video" where
  "mkVideo i t =
     \<lparr>video_id = i, title = [], channelTitle = [], channelId = [],
      defaultLanguage = [], defaultAudioLanguage = [], regionCode = [],
      capturedAt = t, viewCount = 0\<rparr>"

definition emptyStore :: storage where
  "emptyStore =
     \<lparr>st_settings = None, st_videos = None, st_lastCaptureTimestamp = None,
      st_captureHistory = None\<rparr>"

text \<open>
  A store with two videos whose settings blob holds \<open>maxStoredVideos = 2\<close> and nothing
  else, and the store with the same two videos and no settings blob.
\<close>

definition exStore2 :: storage where
  "exStore2 =
     \<lparr>st_settings =
        Some \<lparr>s_apiKey = None, s_autoCapture = None, s_captureInterval = None,
              s_maxStoredVideos = Some (Num 2), s_targetVideoCount = None\<rparr>,
      st_videos = Some [mkVideo ''a'' 4, mkVideo ''b'' 3],
      st_lastCaptureTimestamp = None, st_captureHistory = None\<rparr>"

definition exStoreAB :: storage where
  "exStoreAB = emptyStore\<lparr>st_videos := Some [mkVideo ''a'' 4, mkVideo ''b'' 3]\<rparr>"

text \<open>
  \<open>n\<close> videos with \<open>n\<close> identifiers, captured at the times \<open>n - 1\<close> down to 0, in
  the order in which the store keeps them.
\<close>

definition exVideos :: "nat \<Rightarrow> video list" where
  "exVideos n = map (\<lambda>i. mkVideo (replicate (Suc i) CHR ''v'') (int i)) (rev [0..<n])"

text \<open>
  Stores that \<open>saveAllSettings\<close> writes: with the field for \<open>maxStoredVideos\<close> left
  empty, with 500 in it, and with 50 in it on a store of 50 videos. \<open>exStoreFull\<close> holds
  500 videos and no settings blob.
\<close>

definition exStoreNaN :: storage where
  "exStoreNaN = snd (saveAllSettings ''key'' (Num 100) NaN (loadSettings exStoreAB) exStoreAB)"

definition exStore500 :: storage where
  "exStore500 =
     snd (saveAllSettings ''key'' (Num 100) (Num 500) (loadSettings exStoreAB) exStoreAB)"

definition exStoreFull :: storage where
  "exStoreFull = emptyStore\<lparr>st_videos := Some (exVideos 500)\<rparr>"

definition exStore50 :: storage where
  "exStore50 =
     snd (saveAllSettings ''key'' (Num 100) (Num 50)
            (loadSettings (emptyStore\<lparr>st_videos := Some (exVideos 50)\<rparr>))
            (emptyStore\<lparr>st_videos := Some (exVideos 50)\<rparr>))"

text \<open>Lower-casing of the ASCII letters, and comparison of strings by their code units.\<close>

definition asciiLower :: "string \<Rightarrow> string" where
  "asciiLower =
     map (\<lambda>c. case map_of (zip ''ABCDEFGHIJKLMNOPQRSTUVWXYZ'' ''abcdefghijklmnopqrstuvwxyz'') c of
                 None \<Rightarrow> c | Some l \<Rightarrow> l)"

fun codeUnitCompare :: "string \<Rightarrow> string \<Rightarrow> int" where
  "codeUnitCompare [] [] = 0"
| "codeUnitCompare [] (y # ys) = - 1"
| "codeUnitCompare (x # xs) [] = 1"
| "codeUnitCompare (x # xs) (y # ys) =
     (if (of_char x :: nat) < of_char y then - 1
      else if (of_char y :: nat) < of_char x then 1
      else codeUnitCompare xs ys)"

definition exFilters :: filters where
  "exFilters =
     \<lparr>selectedLanguages = [''ja''], selectedCountries = [''JP''], sortBy = Some ''date'',
      searchQuery = ''cat''\<rparr>"

definition exCat :: video where
  "exCat =
     (mkVideo ''v1'' 2)\<lparr>title := ''Cat Video'', defaultLanguage := ''ja'', regionCode := ''JP''\<rparr>"

definition exDog :: video where
  "exDog = (mkVideo ''v2'' 3)\<lparr>title := ''Dog'', defaultLanguage := ''ja'', regionCode := ''JP''\<rparr>"

definition exA :: video where
  "exA = (mkVideo ''a'' 1)\<lparr>title := ''b'', viewCount := 5\<rparr>"

definition exB :: video where
  "exB = (mkVideo ''b'' 3)\<lparr>title := ''a'', viewCount := 5\<rparr>"

definition exC :: video where
  "exC = (mkVideo ''c'' 2)\<lparr>title := ''b'', viewCount := 9\<rparr>"

text \<open>A remote API that rejects every videos request but the one for \<open>b\<close>.\<close>

definition exNet :: network where
  "exNet =
     \<lparr>videosEndpoint =
        (\<lambda>log ids key. if ids = [''b''] then VideosOk [mkVideo ''b'' 1]
                        else VideosNotOk 403 (Some ''quotaExceeded'')),
      channelsEndpoint = (\<lambda>log ids key. ChannelsNotOk)\<rparr>"

definition exWorld :: world where
  "exWorld = \<lparr>requests = [], store = emptyStore\<rparr>"

section \<open>Properties\<close>

subsection \<open>Sorting\<close>

lemma set_insertBy: "set (insertBy cmp x xs) = insert x (set xs)"
  by (induction xs) auto

lemma length_insertBy: "length (insertBy cmp x xs) = Suc (length xs)"
  by (induction xs) auto

lemma set_js_sort: "set (js_sort cmp xs) = set xs"
  by (induction xs) (auto simp: set_insertBy)

lemma length_js_sort: "length (js_sort cmp xs) = length xs"
  by (induction xs) (auto simp: length_insertBy)

lemma distinct_insertBy: "distinct (map f (insertBy cmp x xs)) = (f x \<notin> f ` set xs \<and> distinct (map f xs))"
  by (induction xs) (auto simp: set_insertBy)

lemma distinct_js_sort: "distinct (map f (js_sort cmp xs)) = distinct (map f xs)"
  by (induction xs) (auto simp: distinct_insertBy set_js_sort)

lemma sorted_insertBy:
  assumes "consistent cmp" "sorted_wrt (\<lambda>a b. cmp a b \<le> 0) xs"
  shows "sorted_wrt (\<lambda>a b. cmp a b \<le> 0) (insertBy cmp x xs)"
  using assms(2)
proof (induction xs)
  case Nil
  then show ?case by simp
next
  case (Cons y ys)
  from assms(1) have tot: "\<And>a b. cmp a b \<le> 0 \<or> cmp b a \<le> 0"
    and tr: "\<And>a b c. cmp a b \<le> 0 \<Longrightarrow> cmp b c \<le> 0 \<Longrightarrow> cmp a c \<le> 0"
    unfolding consistent_def by blast+
  show ?case
  proof (cases "cmp x y \<le> 0")
    case True
    with Cons.prems tr show ?thesis by auto
  next
    case False
    with tot have "cmp y x \<le> 0" by blast
    with False Cons show ?thesis by (auto simp: set_insertBy)
  qed
qed

lemma sorted_js_sort:
  "consistent cmp \<Longrightarrow> sorted_wrt (\<lambda>a b. cmp a b \<le> 0) (js_sort cmp xs)"
  by (induction xs) (auto intro: sorted_insertBy)

lemma filter_insertBy:
  assumes "consistent cmp"
  shows "filter (\<lambda>y. cmp a y \<le> 0 \<and> cmp y a \<le> 0) (insertBy cmp x xs) =
         filter (\<lambda>y. cmp a y \<le> 0 \<and> cmp y a \<le> 0) (x # xs)"
proof (induction xs)
  case Nil
  then show ?case by simp
next
  case (Cons y ys)
  from assms have tr: "\<And>a b c. cmp a b \<le> 0 \<Longrightarrow> cmp b c \<le> 0 \<Longrightarrow> cmp a c \<le> 0"
    unfolding consistent_def by blast
  show ?case
  proof (cases "cmp x y \<le> 0")
    case True
    then show ?thesis by simp
  next
    case False
    have "\<not> ((cmp a x \<le> 0 \<and> cmp x a \<le> 0) \<and> (cmp a y \<le> 0 \<and> cmp y a \<le> 0))"
      using False tr by blast
    with False Cons show ?thesis by auto
  qed
qed

lemma js_sort_stable:
  "consistent cmp \<Longrightarrow>
   filter (\<lambda>y. cmp a y \<le> 0 \<and> cmp y a \<le> 0) (js_sort cmp xs) =
   filter (\<lambda>y. cmp a y \<le> 0 \<and> cmp y a \<le> 0) xs"
  by (induction xs) (simp_all add: filter_insertBy)

lemma consistent_byCapturedAtDesc: "consistent byCapturedAtDesc"
  by (auto simp: consistent_def byCapturedAtDesc_def)

lemma consistent_byViewCountDesc: "consistent byViewCountDesc"
  by (auto simp: consistent_def byViewCountDesc_def)

lemma js_sort_sorted_id:
  "consistent cmp \<Longrightarrow> sorted_wrt (\<lambda>a b. cmp a b \<le> 0) xs \<Longrightarrow> js_sort cmp xs = xs"
proof (induction xs)
  case Nil
  then show ?case by simp
next
  case (Cons x xs)
  then have "js_sort cmp xs = xs" by simp
  moreover have "insertBy cmp x xs = x # xs" using Cons.prems(2) by (cases xs) auto
  ultimately show ?case by simp
qed

subsection \<open>deduplicateBy\<close>

lemma set_dedupFrom: "key ` set (dedupFrom key seen xs) = key ` set xs - set seen"
  by (induction xs arbitrary: seen) auto

lemma dedupFrom_subset: "set (dedupFrom key seen xs) \<subseteq> set xs"
  by (induction xs arbitrary: seen) auto

lemma distinct_dedupFrom: "distinct (map key (dedupFrom key seen xs))"
proof (induction xs arbitrary: seen)
  case Nil
  then show ?case by simp
next
  case (Cons x xs)
  have "key x \<notin> key ` set (dedupFrom key (key x # seen) xs)"
    by (simp add: set_dedupFrom)
  with Cons show ?case by auto
qed

lemma find_dedupFrom:
  "r \<in> set (dedupFrom key seen xs) \<Longrightarrow> find (\<lambda>v. key v = key r) xs = Some r"
proof (induction xs arbitrary: seen)
  case Nil
  then show ?case by simp
next
  case (Cons x xs)
  show ?case
  proof (cases "key x \<in> set seen")
    case True
    with Cons.prems have r: "r \<in> set (dedupFrom key seen xs)" by simp
    then have "key r \<in> key ` set xs - set seen" using set_dedupFrom[of key seen xs] by blast
    with True have "key x \<noteq> key r" by auto
    with Cons.IH[OF r] show ?thesis by simp
  next
    case False
    show ?thesis
    proof (cases "r = x")
      case True
      then show ?thesis by simp
    next
      case False': False
      with False Cons.prems have r: "r \<in> set (dedupFrom key (key x # seen) xs)" by simp
      then have "key r \<in> key ` set xs - set (key x # seen)"
        using set_dedupFrom[of key "key x # seen" xs] by blast
      then have "key x \<noteq> key r" by auto
      with Cons.IH[OF r] show ?thesis by simp
    qed
  qed
qed

subsection \<open>The merge\<close>

lemma floor_rat_numeral:
  "\<lfloor>(numeral a :: rat) / numeral b\<rfloor> = numeral a div numeral b"
  using floor_divide_of_int_eq[of "numeral a" "numeral b", where ?'a = rat] by simp

lemma slice0_nonneg: "0 \<le> e \<Longrightarrow> slice0 xs e = take (nat e) xs"
  by (simp add: slice0_def)

lemma st_videos_saveVideos:
  "newVideos \<noteq> [] \<Longrightarrow>
   st_videos (saveVideos rnd bytes now1 now2 newVideos s) = Some (videosToStore newVideos s)"
  by (simp add: saveVideos_def updateCaptureHistory_def Let_def)

lemma getVideos_saveVideos:
  "newVideos \<noteq> [] \<Longrightarrow>
   getVideos (saveVideos rnd bytes now1 now2 newVideos s) = videosToStore newVideos s"
  by (simp add: getVideos_def st_videos_saveVideos)

lemma sorted_wrt_slice0: "sorted_wrt R xs \<Longrightarrow> sorted_wrt R (slice0 xs e)"
  by (simp add: slice0_def sorted_wrt_take)

lemma set_slice0: "set (slice0 xs e) \<subseteq> set xs"
  by (auto simp: slice0_def dest: in_set_takeD)

lemma sorted_unique:
  "sorted_wrt (\<lambda>a b. capturedAt b \<le> capturedAt a) (js_sort byCapturedAtDesc xs)"
  using sorted_js_sort[OF consistent_byCapturedAtDesc, of xs]
  by (simp add: byCapturedAtDesc_def)

lemma sorted_videosToStore:
  "sorted_wrt (\<lambda>a b. capturedAt b \<le> capturedAt a) (videosToStore newVideos s)"
  by (simp add: videosToStore_def Let_def sorted_wrt_slice0 sorted_unique)

lemma videosToStore_nonneg:
  "0 \<le> maxVideosOf (getSettings s) \<Longrightarrow>
   videosToStore newVideos s =
     take (nat (maxVideosOf (getSettings s)))
       (js_sort byCapturedAtDesc (deduplicateBy (getVideos s @ newVideos) video_id))"
  by (simp add: videosToStore_def Let_def slice0_nonneg)


text \<open>
  Claim C1 says that, when the byte-size check triggers, the collection persisted at the end
  of the merge is the collection that eviction shrank. \<open>saveVideos\<close> drops the value
  that \<open>checkAndEvictIfNeeded\<close> returns and then writes \<open>videosToStore\<close> itself.
  The evaluation below runs a merge of one new record into four stored ones with
  9000000 bytes in use (85.83 percent): eviction writes the three newest records, and the
  final write of the merge puts all five back.
\<close>

theorem saveVideos_overwrites_eviction:
  "(let s = emptyStore\<lparr>st_videos :=
              Some [mkVideo ''a'' 4, mkVideo ''b'' 3, mkVideo ''c'' 2, mkVideo ''d'' 1]\<rparr>;
        newVideos = [mkVideo ''e'' 5];
        toStore = videosToStore newVideos s
    in percentage (getStorageUsage (\<lambda>x. x) 9000000) = 8583 / 100 \<and>
       checkAndEvictIfNeeded (\<lambda>x. x) 9000000 toStore s =
         ([mkVideo ''e'' 5, mkVideo ''a'' 4, mkVideo ''b'' 3],
          s\<lparr>st_videos := Some [mkVideo ''e'' 5, mkVideo ''a'' 4, mkVideo ''b'' 3]\<rparr>) \<and>
       getVideos (saveVideos (\<lambda>x. x) 9000000 10 11 newVideos s) =
         [mkVideo ''e'' 5, mkVideo ''a'' 4, mkVideo ''b'' 3, mkVideo ''c'' 2, mkVideo ''d'' 1])"
proof -
  let ?s = "emptyStore\<lparr>st_videos :=
              Some [mkVideo ''a'' 4, mkVideo ''b'' 3, mkVideo ''c'' 2, mkVideo ''d'' 1]\<rparr>"
  have ts: "videosToStore [mkVideo ''e'' 5] ?s =
      [mkVideo ''e'' 5, mkVideo ''a'' 4, mkVideo ''b'' 3, mkVideo ''c'' 2, mkVideo ''d'' 1]"
    by (simp add: videosToStore_def getVideos_def emptyStore_def
      getSettings_def DEFAULT_SETTINGS_def maxVideosOf_def
      deduplicateBy_def mkVideo_def byCapturedAtDesc_def slice0_def Let_def)
  have pc: "percentage (getStorageUsage (\<lambda>x. x) 9000000) = 8583 / 100"
    by (simp add: getStorageUsage_def toFixed2_def MAX_SIZE_BYTES_def Let_def floor_rat_numeral)
  have tc: "targetCount (\<lambda>x. x) (Suc (Suc (Suc (Suc (Suc 0))))) (8583 / 100) = 3"
    by (simp add: targetCount_def EVICTION_TARGET_def floor_rat_numeral)
  have ev: "checkAndEvictIfNeeded (\<lambda>x. x) 9000000
      [mkVideo ''e'' 5, mkVideo ''a'' 4, mkVideo ''b'' 3, mkVideo ''c'' 2, mkVideo ''d'' 1] ?s =
         ([mkVideo ''e'' 5, mkVideo ''a'' 4, mkVideo ''b'' 3],
          ?s\<lparr>st_videos := Some [mkVideo ''e'' 5, mkVideo ''a'' 4, mkVideo ''b'' 3]\<rparr>)"
    by (simp add: checkAndEvictIfNeeded_def pc tc WARNING_THRESHOLD_def slice0_def Let_def)
  show ?thesis
    unfolding Let_def by (simp add: ts pc ev getVideos_saveVideos)
qed

text \<open>
  Claim C3: after a merge of a non-empty list, the persisted collection is sorted by
  capture timestamp, newest first, and it is the first \<open>m\<close> records of the sorted,
  deduplicated collection, so it has at most \<open>m\<close> records, where \<open>m\<close> is the
  configured \<open>maxStoredVideos\<close> (500 when nothing is configured). A count is not
  negative; for a negative \<open>m\<close> the source's \<open>slice(0, m)\<close> drops \<open>-m\<close> records
  from the end instead.
\<close>

theorem merge_sorted_and_bounded:
  "newVideos \<noteq> [] \<Longrightarrow>
   (let persisted = getVideos (saveVideos rnd bytes now1 now2 newVideos s);
        m = maxVideosOf (getSettings s);
        unique = js_sort byCapturedAtDesc (deduplicateBy (getVideos s @ newVideos) video_id)
    in sorted_wrt (\<lambda>a b. capturedAt b \<le> capturedAt a) persisted \<and>
       (0 \<le> m \<longrightarrow> int (length persisted) \<le> m \<and> persisted = take (nat m) unique) \<and>
       maxVideosOf DEFAULT_SETTINGS = 500)"
  unfolding Let_def
proof (intro conjI impI)
  assume ne: "newVideos \<noteq> []"
  show "sorted_wrt (\<lambda>a b. capturedAt b \<le> capturedAt a)
          (getVideos (saveVideos rnd bytes now1 now2 newVideos s))"
    by (simp add: getVideos_saveVideos[OF ne] sorted_videosToStore)
  {
    assume m: "0 \<le> maxVideosOf (getSettings s)"
    show "getVideos (saveVideos rnd bytes now1 now2 newVideos s) =
          take (nat (maxVideosOf (getSettings s)))
            (js_sort byCapturedAtDesc (deduplicateBy (getVideos s @ newVideos) video_id))"
      by (simp add: getVideos_saveVideos[OF ne] videosToStore_nonneg[OF m])
    then show "int (length (getVideos (saveVideos rnd bytes now1 now2 newVideos s)))
          \<le> maxVideosOf (getSettings s)"
      using m by simp
  }
  show "maxVideosOf DEFAULT_SETTINGS = 500"
    by (simp add: DEFAULT_SETTINGS_def maxVideosOf_def)
qed

lemma ex_videosToStore:
  "videosToStore [mkVideo ''x'' 7, mkVideo ''a'' 9]
     exStore2
   = [mkVideo ''x'' 7, mkVideo ''a'' 4]"
  by (simp add: videosToStore_def getVideos_def exStore2_def
      getSettings_def spread_def DEFAULT_SETTINGS_def maxVideosOf_def
      deduplicateBy_def mkVideo_def byCapturedAtDesc_def slice0_def Let_def)

lemma dedupFrom_distinct:
  "distinct (map key xs) \<Longrightarrow> key ` set xs \<inter> set seen = {} \<Longrightarrow> dedupFrom key seen xs = xs"
proof (induction xs arbitrary: seen)
  case Nil
  then show ?case by simp
next
  case (Cons x xs)
  from Cons.prems have n: "key x \<notin> set seen" by auto
  from Cons.prems have "key ` set xs \<inter> set (key x # seen) = {}" by auto
  with Cons.IH[of "key x # seen"] Cons.prems(1) have "dedupFrom key (key x # seen) xs = xs"
    by simp
  with n show ?case by simp
qed

lemma deduplicateBy_distinct:
  "distinct (map key xs) \<Longrightarrow> deduplicateBy xs key = xs"
  by (simp add: deduplicateBy_def dedupFrom_distinct)

lemma deduplicateBy_nonempty: "xs \<noteq> [] \<Longrightarrow> deduplicateBy xs key \<noteq> []"
  by (cases xs) (simp_all add: deduplicateBy_def)

lemma js_sort_nonempty: "xs \<noteq> [] \<Longrightarrow> js_sort cmp xs \<noteq> []"
  using length_js_sort[of cmp xs] by (cases xs) auto

lemma length_exVideos: "length (exVideos n) = n"
  by (simp add: exVideos_def)

lemma ids_exVideos:
  "map video_id (exVideos n) = map (\<lambda>i. replicate (Suc i) CHR ''v'') (rev [0..<n])"
  by (simp add: exVideos_def mkVideo_def comp_def)

lemma distinct_ids_exVideos: "distinct (map video_id (exVideos n))"
proof -
  have "inj_on (\<lambda>i. replicate (Suc i) CHR ''v'') (set (rev [0..<n]))"
    by (rule inj_onI) (metis length_replicate nat.inject)
  then show ?thesis
    unfolding ids_exVideos by (simp add: distinct_map)
qed

lemma length_merge_exVideos:
  "length (deduplicateBy (exVideos n @ [mkVideo (replicate (Suc n) CHR ''v'') (int n)]) video_id)
     = Suc n"
proof -
  have "video_id (mkVideo (replicate (Suc n) CHR ''v'') (int n)) \<notin>
        set (map video_id (exVideos n))"
  proof
    assume "video_id (mkVideo (replicate (Suc n) CHR ''v'') (int n)) \<in>
        set (map video_id (exVideos n))"
    then obtain i where "i < n" "replicate (Suc n) CHR ''v'' = replicate (Suc i) CHR ''v''"
      unfolding ids_exVideos by (auto simp: mkVideo_def)
    then have "length (replicate (Suc n) CHR ''v'') = length (replicate (Suc i) CHR ''v'')"
      by simp
    with \<open>i < n\<close> show False by simp
  qed
  then have "distinct (map video_id (exVideos n @ [mkVideo (replicate (Suc n) CHR ''v'') (int n)]))"
    using distinct_ids_exVideos[of n] by simp
  then show ?thesis
    by (simp add: deduplicateBy_distinct length_exVideos)
qed

lemma ex_merge_501:
  "length (deduplicateBy (exVideos 500 @ [mkVideo (replicate 501 CHR ''v'') 500]) video_id) = 501"
  using length_merge_exVideos[of 500] by simp

lemma ex_merge_51:
  "length (deduplicateBy (exVideos 50 @ [mkVideo (replicate 51 CHR ''v'') 50]) video_id) = 51"
  using length_merge_exVideos[of 50] by simp

lemma ex_exStore50:
  "exStore50 =
     emptyStore\<lparr>st_videos := Some (exVideos 50),
       st_settings :=
         Some (storedObject (DEFAULT_SETTINGS\<lparr>apiKey := ''key'', targetVideoCount := Num 100,
                 maxStoredVideos := Num 50\<rparr>))\<rparr>"
  by (simp add: exStore50_def saveAllSettings_def loadSettings_def emptyStore_def Let_def)

lemma ex_maxVideosOf_50: "maxVideosOf (getSettings exStore50) = 50"
  by (simp add: ex_exStore50 getSettings_def spread_def storedObject_def maxVideosOf_def
      emptyStore_def)

theorem merge_sorted_and_bounded_witness:
  "[mkVideo ''x'' 7, mkVideo ''a'' 9] \<noteq> [] \<and>
   0 \<le> maxVideosOf (getSettings exStore2) \<and>
   getVideos (saveVideos (\<lambda>x. x) 1000 10 11 [mkVideo ''x'' 7, mkVideo ''a'' 9]
     exStore2)
   = [mkVideo ''x'' 7, mkVideo ''a'' 4] \<and>
   sorted_wrt (\<lambda>a b. capturedAt b \<le> capturedAt a) [mkVideo ''x'' 7, mkVideo ''a'' 4] \<and>
   int (length [mkVideo ''x'' 7, mkVideo ''a'' 4]) \<le> 2 \<and>
   maxVideosOf (getSettings exStore50) = 50 \<and>
   length (deduplicateBy (getVideos exStore50 @ [mkVideo (replicate 51 CHR ''v'') 50])
             video_id) = 51 \<and>
   length (getVideos (saveVideos (\<lambda>x. x) 1000 10 11 [mkVideo (replicate 51 CHR ''v'') 50]
             exStore50)) = 50"
proof -
  have small: "[mkVideo ''x'' 7, mkVideo ''a'' 9] \<noteq> [] \<and>
   0 \<le> maxVideosOf (getSettings exStore2) \<and>
   getVideos (saveVideos (\<lambda>x. x) 1000 10 11 [mkVideo ''x'' 7, mkVideo ''a'' 9]
     exStore2)
   = [mkVideo ''x'' 7, mkVideo ''a'' 4] \<and>
   sorted_wrt (\<lambda>a b. capturedAt b \<le> capturedAt a) [mkVideo ''x'' 7, mkVideo ''a'' 4] \<and>
   int (length [mkVideo ''x'' 7, mkVideo ''a'' 4]) \<le> 2"
    using merge_sorted_and_bounded[of "[mkVideo ''x'' 7, mkVideo ''a'' 9]" "\<lambda>x. x" 1000 10 11
      exStore2]
    by (simp add: getVideos_saveVideos ex_videosToStore)
       (simp add: mkVideo_def exStore2_def getSettings_def spread_def
         DEFAULT_SETTINGS_def maxVideosOf_def)
  have g: "getVideos exStore50 = exVideos 50"
    by (simp add: ex_exStore50 getVideos_def)
  have d: "length (deduplicateBy (getVideos exStore50 @ [mkVideo (replicate 51 CHR ''v'') 50])
             video_id) = 51"
    unfolding g by (rule ex_merge_51)
  have ne: "[mkVideo (replicate 51 CHR ''v'') 50] \<noteq> []" by simp
  from merge_sorted_and_bounded[OF ne, of "\<lambda>x. x" 1000 10 11 exStore50, unfolded Let_def]
    ex_maxVideosOf_50
  have "getVideos (saveVideos (\<lambda>x. x) 1000 10 11 [mkVideo (replicate 51 CHR ''v'') 50]
             exStore50) =
        take 50 (js_sort byCapturedAtDesc
          (deduplicateBy (getVideos exStore50 @ [mkVideo (replicate 51 CHR ''v'') 50])
             video_id))"
    by simp
  then have "length (getVideos (saveVideos (\<lambda>x. x) 1000 10 11
      [mkVideo (replicate 51 CHR ''v'') 50] exStore50)) = 50"
    by (simp add: length_js_sort d)
  with small ex_maxVideosOf_50 d show ?thesis by blast
qed


subsection \<open>Capture history\<close>

lemma length_sliceLast: "length (sliceLast k xs) = min k (length xs)"
  by (simp add: sliceLast_def)

lemma sliceLast_short: "length xs \<le> k \<Longrightarrow> sliceLast k xs = xs"
  by (simp add: sliceLast_def)

lemma sliceLast_sliceLast_append:
  "sliceLast k (sliceLast k xs @ ys) = sliceLast k (xs @ ys)"
  by (cases "length xs \<le> k") (auto simp: sliceLast_def ac_simps)

lemma getCaptureHistory_saveVideos:
  "newVideos \<noteq> [] \<Longrightarrow>
   getCaptureHistory (saveVideos rnd bytes now1 now2 newVideos s) =
     sliceLast 50 (getCaptureHistory s @ [\<lparr>timestamp = now2, videoCount = length newVideos\<rparr>])"
  by (simp add: saveVideos_def updateCaptureHistory_def getCaptureHistory_def
      checkAndEvictIfNeeded_def Let_def)

lemma sliceLast_history_saveVideosAll:
  "\<forall>i \<in> set inputs. snd (snd (snd i)) \<noteq> [] \<Longrightarrow>
   sliceLast 50 (getCaptureHistory (saveVideosAll rnd inputs s)) =
     sliceLast 50 (getCaptureHistory s @
       map (\<lambda>(bytes, now1, now2, newVideos).
              \<lparr>timestamp = now2, videoCount = length newVideos\<rparr>) inputs)"
proof (induction inputs arbitrary: s)
  case Nil
  then show ?case by simp
next
  case (Cons i inputs)
  obtain bytes now1 now2 newVideos where i: "i = (bytes, now1, now2, newVideos)"
    by (cases i) auto
  with Cons.prems have ne: "newVideos \<noteq> []" by simp
  from Cons.prems have rest: "\<forall>i \<in> set inputs. snd (snd (snd i)) \<noteq> []" by simp
  show ?case
    unfolding i saveVideosAll.simps Cons.IH[OF rest] getCaptureHistory_saveVideos[OF ne]
    by (simp add: sliceLast_sliceLast_append)
qed

lemma length_history_saveVideosAll:
  "\<forall>i \<in> set inputs. snd (snd (snd i)) \<noteq> [] \<Longrightarrow>
   inputs \<noteq> [] \<or> length (getCaptureHistory s) \<le> 50 \<Longrightarrow>
   length (getCaptureHistory (saveVideosAll rnd inputs s)) \<le> 50"
proof (induction inputs arbitrary: s)
  case Nil
  then show ?case by simp
next
  case (Cons i inputs)
  obtain bytes now1 now2 newVideos where i: "i = (bytes, now1, now2, newVideos)"
    by (cases i) auto
  with Cons.prems have ne: "newVideos \<noteq> []" by simp
  from Cons.prems have rest: "\<forall>i \<in> set inputs. snd (snd (snd i)) \<noteq> []" by simp
  have "length (getCaptureHistory (saveVideos rnd bytes now1 now2 newVideos s)) \<le> 50"
    by (simp add: getCaptureHistory_saveVideos[OF ne] length_sliceLast)
  then show ?case
    unfolding i saveVideosAll.simps by (intro Cons.IH[OF rest]) simp
qed

text \<open>
  Claim C9: every merge of a non-empty list appends the entry \<open>(now, n)\<close>, where
  \<open>n\<close> is the length of the list given to \<open>saveVideos\<close>, whatever deduplication,
  truncation and eviction keep of it, and cuts the history to its last 50 entries. So after
  any run of such merges the history is the last 50 entries of the old history followed
  by one entry per merge, and after 51 merges it has exactly 50 entries.
\<close>

theorem capture_history_last_50:
  assumes "\<forall>i \<in> set inputs. snd (snd (snd i)) \<noteq> []" and "inputs \<noteq> []"
  shows "getCaptureHistory (saveVideosAll rnd inputs s) =
           sliceLast 50 (getCaptureHistory s @
             map (\<lambda>(bytes, now1, now2, newVideos).
                    \<lparr>timestamp = now2, videoCount = length newVideos\<rparr>) inputs) \<and>
         length (getCaptureHistory (saveVideosAll rnd inputs s)) =
           min 50 (length (getCaptureHistory s) + length inputs) \<and>
         (length inputs = 51 \<longrightarrow> length (getCaptureHistory (saveVideosAll rnd inputs s)) = 50)"
proof -
  have le: "length (getCaptureHistory (saveVideosAll rnd inputs s)) \<le> 50"
    using assms by (intro length_history_saveVideosAll) simp_all
  have eq: "getCaptureHistory (saveVideosAll rnd inputs s) =
           sliceLast 50 (getCaptureHistory s @
             map (\<lambda>(bytes, now1, now2, newVideos).
                    \<lparr>timestamp = now2, videoCount = length newVideos\<rparr>) inputs)"
    using sliceLast_history_saveVideosAll[OF assms(1), of rnd s] sliceLast_short[OF le]
    by simp
  have len: "length (getCaptureHistory (saveVideosAll rnd inputs s)) =
           min 50 (length (getCaptureHistory s) + length inputs)"
    by (subst eq) (simp add: length_sliceLast)
  from eq len show ?thesis by simp
qed

theorem capture_history_last_50_witness:
  "snd (snd (snd (1000::nat, 10::int, 11::int, [mkVideo ''a'' 1]))) \<noteq> [] \<and>
   replicate 51 (1000::nat, 10::int, 11::int, [mkVideo ''a'' 1]) \<noteq> [] \<and>
   length (replicate 51 (1000::nat, 10::int, 11::int, [mkVideo ''a'' 1])) = 51 \<and>
   length (getCaptureHistory (saveVideosAll (\<lambda>x. x)
      (replicate 51 (1000, 10, 11, [mkVideo ''a'' 1])) emptyStore)) = 50"
  using capture_history_last_50[of "replicate 51 (1000, 10, 11, [mkVideo ''a'' 1])" "\<lambda>x. x" emptyStore]
  by (simp add: length_sliceLast)

subsection \<open>Settings defaults\<close>

lemma videosToStore_cong:
  "getVideos s' = getVideos s \<Longrightarrow> maxVideosOf (getSettings s') = maxVideosOf (getSettings s) \<Longrightarrow>
   videosToStore newVideos s' = videosToStore newVideos s"
  by (simp add: videosToStore_def)

lemma saveVideos_settings_only:
  assumes "s' = s\<lparr>st_settings := b\<rparr>"
    and "maxVideosOf (getSettings s') = maxVideosOf (getSettings s)"
  shows "saveVideos rnd bytes now1 now2 newVideos s =
         (saveVideos rnd bytes now1 now2 newVideos s')\<lparr>st_settings := st_settings s\<rparr>"
proof -
  have gv: "getVideos s' = getVideos s" using assms(1) by (simp add: getVideos_def)
  have gh: "getCaptureHistory s' = getCaptureHistory s"
    using assms(1) by (simp add: getCaptureHistory_def)
  have ts: "videosToStore newVideos s' = videosToStore newVideos s"
    by (rule videosToStore_cong[OF gv assms(2)])
  show ?thesis
    using assms(1) ts
    by (simp add: saveVideos_def updateCaptureHistory_def getCaptureHistory_def
        checkAndEvictIfNeeded_def Let_def)
qed

text \<open>
  Claim C10: when the settings blob is absent, or its \<open>maxStoredVideos\<close> is missing,
  0 or \<open>NaN\<close>, a merge of a non-empty list works with the ceiling 500:
  \<open>getSettings\<close> fills a missing field from \<open>DEFAULT_SETTINGS\<close>, \<open>saveVideos\<close>
  puts 500 in the place of a falsy value, and what the merge persists is the first 500
  records of the sorted, deduplicated collection. So the persisted collection has
  \<open>min 500 n\<close> records for \<open>n\<close> distinct identifiers, it is never empty, and the
  store after the merge is the one that the same merge leaves when \<open>maxStoredVideos\<close>
  is configured as 500, the settings blob itself apart.
\<close>

theorem falsy_maxStoredVideos_is_500:
  assumes "st_settings s = None \<or>
           (\<exists>b. st_settings s = Some b \<and>
                (s_maxStoredVideos b = None \<or> s_maxStoredVideos b = Some NaN \<or>
                 s_maxStoredVideos b = Some (Num 0)))"
    and "newVideos \<noteq> []"
  shows "(let unique = js_sort byCapturedAtDesc
                         (deduplicateBy (getVideos s @ newVideos) video_id);
              persisted = getVideos (saveVideos rnd bytes now1 now2 newVideos s)
          in maxStoredVideos (getSettings s) =
               (case st_settings s of
                  None \<Rightarrow> Num 500
                | Some b \<Rightarrow> (case s_maxStoredVideos b of None \<Rightarrow> Num 500 | Some v \<Rightarrow> v)) \<and>
             maxVideosOf (getSettings s) = 500 \<and>
             persisted = take 500 unique \<and>
             length persisted = min 500 (length (deduplicateBy (getVideos s @ newVideos) video_id)) \<and>
             persisted \<noteq> [] \<and>
             (\<forall>b. s_maxStoredVideos b = Some (Num 500) \<longrightarrow>
                saveVideos rnd bytes now1 now2 newVideos s =
                  (saveVideos rnd bytes now1 now2 newVideos (s\<lparr>st_settings := Some b\<rparr>))
                    \<lparr>st_settings := st_settings s\<rparr>))"
proof -
  let ?unique = "js_sort byCapturedAtDesc (deduplicateBy (getVideos s @ newVideos) video_id)"
  let ?persisted = "getVideos (saveVideos rnd bytes now1 now2 newVideos s)"
  have f: "maxStoredVideos (getSettings s) =
           (case st_settings s of
              None \<Rightarrow> Num 500
            | Some b \<Rightarrow> (case s_maxStoredVideos b of None \<Rightarrow> Num 500 | Some v \<Rightarrow> v))"
    by (simp add: getSettings_def spread_def DEFAULT_SETTINGS_def split: option.splits)
  have m: "maxVideosOf (getSettings s) = 500"
    using assms(1)
    by (auto simp: maxVideosOf_def getSettings_def spread_def DEFAULT_SETTINGS_def)
  have p: "?persisted = take 500 ?unique"
    using videosToStore_nonneg[of s newVideos]
    by (simp add: getVideos_saveVideos[OF assms(2)] m)
  have l: "length ?persisted =
      min 500 (length (deduplicateBy (getVideos s @ newVideos) video_id))"
    unfolding p by (simp add: length_js_sort)
  have "getVideos s @ newVideos \<noteq> []" using assms(2) by simp
  then have "?unique \<noteq> []"
    by (intro js_sort_nonempty deduplicateBy_nonempty)
  then have n: "?persisted \<noteq> []" unfolding p by simp
  have e: "saveVideos rnd bytes now1 now2 newVideos s =
                  (saveVideos rnd bytes now1 now2 newVideos (s\<lparr>st_settings := Some b\<rparr>))
                    \<lparr>st_settings := st_settings s\<rparr>"
    if b: "s_maxStoredVideos b = Some (Num 500)" for b
  proof (rule saveVideos_settings_only[where b = "Some b"])
    show "s\<lparr>st_settings := Some b\<rparr> = s\<lparr>st_settings := Some b\<rparr>" by (rule refl)
    show "maxVideosOf (getSettings (s\<lparr>st_settings := Some b\<rparr>)) = maxVideosOf (getSettings s)"
      using b by (simp add: m) (simp add: maxVideosOf_def getSettings_def spread_def)
  qed
  from f m p l n e show ?thesis unfolding Let_def by blast
qed


lemma ex_exStoreNaN:
  "exStoreNaN =
     exStoreAB\<lparr>st_settings :=
       Some (storedObject (DEFAULT_SETTINGS\<lparr>apiKey := ''key'', targetVideoCount := Num 100,
               maxStoredVideos := NaN\<rparr>))\<rparr>"
  by (simp add: exStoreNaN_def saveAllSettings_def loadSettings_def exStoreAB_def emptyStore_def
      Let_def)

lemma ex_exStore500:
  "exStore500 =
     exStoreNaN\<lparr>st_settings :=
       Some (storedObject (DEFAULT_SETTINGS\<lparr>apiKey := ''key'', targetVideoCount := Num 100,
               maxStoredVideos := Num 500\<rparr>))\<rparr>"
  by (simp add: ex_exStoreNaN exStore500_def saveAllSettings_def loadSettings_def exStoreAB_def
      emptyStore_def Let_def)

lemma ex_unique_NaN:
  "js_sort byCapturedAtDesc
     (deduplicateBy (getVideos exStoreNaN @ [mkVideo ''x'' 7, mkVideo ''a'' 9]) video_id) =
   [mkVideo ''x'' 7, mkVideo ''a'' 4, mkVideo ''b'' 3]"
  by (simp add: ex_exStoreNaN exStoreAB_def getVideos_def deduplicateBy_def mkVideo_def
      byCapturedAtDesc_def)

theorem falsy_maxStoredVideos_is_500_witness:
  "(\<exists>b. st_settings exStoreNaN = Some b \<and> s_maxStoredVideos b = Some NaN) \<and>
   [mkVideo ''x'' 7, mkVideo ''a'' 9] \<noteq> [] \<and>
   getVideos (saveVideos (\<lambda>x. x) 1000 10 11 [mkVideo ''x'' 7, mkVideo ''a'' 9] exStoreNaN) =
     [mkVideo ''x'' 7, mkVideo ''a'' 4, mkVideo ''b'' 3] \<and>
   (\<exists>b. st_settings exStore500 = Some b \<and> s_maxStoredVideos b = Some (Num 500)) \<and>
   saveVideos (\<lambda>x. x) 1000 10 11 [mkVideo ''x'' 7, mkVideo ''a'' 9] exStoreNaN =
     (saveVideos (\<lambda>x. x) 1000 10 11 [mkVideo ''x'' 7, mkVideo ''a'' 9] exStore500)
       \<lparr>st_settings := st_settings exStoreNaN\<rparr> \<and>
   st_settings exStoreFull = None \<and>
   length (getVideos exStoreFull) = 500 \<and>
   length (deduplicateBy (getVideos exStoreFull @ [mkVideo (replicate 501 CHR ''v'') 500])
             video_id) = 501 \<and>
   length (getVideos (saveVideos (\<lambda>x. x) 1000 10 11 [mkVideo (replicate 501 CHR ''v'') 500]
             exStoreFull)) = 500"
proof -
  let ?new = "[mkVideo ''x'' 7, mkVideo ''a'' 9]"
  let ?b500 = "storedObject (DEFAULT_SETTINGS\<lparr>apiKey := ''key'', targetVideoCount := Num 100,
               maxStoredVideos := Num 500\<rparr>)"
  have hN: "\<exists>b. st_settings exStoreNaN = Some b \<and> s_maxStoredVideos b = Some NaN"
    by (simp add: ex_exStoreNaN storedObject_def)
  have h5: "\<exists>b. st_settings exStore500 = Some b \<and> s_maxStoredVideos b = Some (Num 500)"
    by (simp add: ex_exStore500 storedObject_def)
  have b5: "s_maxStoredVideos ?b500 = Some (Num 500)"
    by (simp add: storedObject_def)
  have ne: "?new \<noteq> []" by simp
  from hN have fN: "st_settings exStoreNaN = None \<or>
           (\<exists>b. st_settings exStoreNaN = Some b \<and>
                (s_maxStoredVideos b = None \<or> s_maxStoredVideos b = Some NaN \<or>
                 s_maxStoredVideos b = Some (Num 0)))"
    by blast
  note tN = falsy_maxStoredVideos_is_500[OF fN ne, of "\<lambda>x. x" 1000 10 11, unfolded Let_def]
  from tN have pN: "getVideos (saveVideos (\<lambda>x. x) 1000 10 11 ?new exStoreNaN) =
      [mkVideo ''x'' 7, mkVideo ''a'' 4, mkVideo ''b'' 3]"
    unfolding ex_unique_NaN by simp
  from tN b5 have "saveVideos (\<lambda>x. x) 1000 10 11 ?new exStoreNaN =
      (saveVideos (\<lambda>x. x) 1000 10 11 ?new (exStoreNaN\<lparr>st_settings := Some ?b500\<rparr>))
        \<lparr>st_settings := st_settings exStoreNaN\<rparr>"
    by blast
  then have eN: "saveVideos (\<lambda>x. x) 1000 10 11 ?new exStoreNaN =
      (saveVideos (\<lambda>x. x) 1000 10 11 ?new exStore500)\<lparr>st_settings := st_settings exStoreNaN\<rparr>"
    unfolding ex_exStore500 .
  have sF: "st_settings exStoreFull = None"
    by (simp add: exStoreFull_def emptyStore_def)
  have gF: "getVideos exStoreFull = exVideos 500"
    by (simp add: exStoreFull_def getVideos_def)
  have lF: "length (getVideos exStoreFull) = 500"
    by (simp add: gF length_exVideos)
  have dF: "length (deduplicateBy
      (getVideos exStoreFull @ [mkVideo (replicate 501 CHR ''v'') 500]) video_id) = 501"
    unfolding gF by (rule ex_merge_501)
  from sF have fF: "st_settings exStoreFull = None \<or>
           (\<exists>b. st_settings exStoreFull = Some b \<and>
                (s_maxStoredVideos b = None \<or> s_maxStoredVideos b = Some NaN \<or>
                 s_maxStoredVideos b = Some (Num 0)))"
    by blast
  have neF: "[mkVideo (replicate 501 CHR ''v'') 500] \<noteq> []" by simp
  note tF = falsy_maxStoredVideos_is_500[OF fF neF, of "\<lambda>x. x" 1000 10 11, unfolded Let_def]
  from tF have "length (getVideos (saveVideos (\<lambda>x. x) 1000 10 11
      [mkVideo (replicate 501 CHR ''v'') 500] exStoreFull)) =
      min 500 (length (deduplicateBy
        (getVideos exStoreFull @ [mkVideo (replicate 501 CHR ''v'') 500]) video_id))"
    by blast
  then have pF: "length (getVideos (saveVideos (\<lambda>x. x) 1000 10 11
      [mkVideo (replicate 501 CHR ''v'') 500] exStoreFull)) = 500"
    unfolding dF by simp
  from hN ne pN h5 eN sF lF dF pF show ?thesis by blast
qed


subsection \<open>Deduplication in the merge\<close>

lemma set_take_subset_js: "set (videosToStore newVideos s) \<subseteq>
   set (deduplicateBy (getVideos s @ newVideos) video_id)"
  using set_slice0[of "js_sort byCapturedAtDesc (deduplicateBy (getVideos s @ newVideos) video_id)"]
  by (auto simp: videosToStore_def Let_def set_js_sort)

lemma distinct_map_slice0: "distinct (map f xs) \<Longrightarrow> distinct (map f (slice0 xs e))"
  by (simp add: slice0_def distinct_take flip: take_map)

lemma distinct_videosToStore: "distinct (map video_id (videosToStore newVideos s))"
  by (simp add: videosToStore_def Let_def distinct_map_slice0 distinct_js_sort
      deduplicateBy_def distinct_dedupFrom)

lemma find_append_eq:
  "find P (xs @ ys) = (case find P xs of None \<Rightarrow> find P ys | Some x \<Rightarrow> Some x)"
  by (induction xs) auto

lemma find_Some_in_set: "find P xs = Some x \<Longrightarrow> x \<in> set xs"
  by (induction xs) (auto split: if_splits)

text \<open>
  Claim C2: deduplication by identifier keeps, for each identifier of
  \<open>existing @ newRecords\<close>, exactly the first record that carries it. So a stored record
  wins over a new record with its identifier, and of several new records with one
  identifier the earliest stays. Every record that the merge persists is such a first
  occurrence, and no identifier is persisted twice.
\<close>

theorem dedup_first_occurrence_wins:
  "(let existing = getVideos s;
        merged = deduplicateBy (existing @ newRecords) video_id;
        persisted = getVideos (saveVideos rnd bytes now1 now2 newRecords s)
    in distinct (map video_id merged) \<and>
       set (map video_id merged) = set (map video_id (existing @ newRecords)) \<and>
       (\<forall>r \<in> set merged. find (\<lambda>v. video_id v = video_id r) (existing @ newRecords) = Some r) \<and>
       (\<forall>r \<in> set merged. video_id r \<in> video_id ` set existing \<longrightarrow> r \<in> set existing) \<and>
       (newRecords \<noteq> [] \<longrightarrow>
          distinct (map video_id persisted) \<and>
          (\<forall>r \<in> set persisted.
             find (\<lambda>v. video_id v = video_id r) (existing @ newRecords) = Some r)))"
  unfolding Let_def
proof (intro conjI ballI impI)
  let ?all = "getVideos s @ newRecords"
  let ?merged = "deduplicateBy ?all video_id"
  show "distinct (map video_id ?merged)"
    by (simp add: deduplicateBy_def distinct_dedupFrom)
  show "set (map video_id ?merged) = set (map video_id ?all)"
    using set_dedupFrom[of video_id "[]" ?all] by (simp add: deduplicateBy_def image_Un)
  show first: "find (\<lambda>v. video_id v = video_id r) ?all = Some r" if "r \<in> set ?merged" for r
    using that by (simp add: deduplicateBy_def find_dedupFrom)
  show "r \<in> set (getVideos s)"
    if r: "r \<in> set ?merged" and ex: "video_id r \<in> video_id ` set (getVideos s)" for r
  proof -
    from ex obtain v where "v \<in> set (getVideos s)" "video_id v = video_id r" by auto
    then obtain u where u: "find (\<lambda>v. video_id v = video_id r) (getVideos s) = Some u"
      by (cases "find (\<lambda>v. video_id v = video_id r) (getVideos s)") (auto simp: find_None_iff)
    then have "find (\<lambda>v. video_id v = video_id r) ?all = Some u"
      by (simp add: find_append_eq)
    with first[OF r] have "u = r" by simp
    with u show ?thesis by (auto dest: find_Some_in_set)
  qed
  assume ne: "newRecords \<noteq> []"
  show "distinct (map video_id (getVideos (saveVideos rnd bytes now1 now2 newRecords s)))"
    by (simp add: getVideos_saveVideos[OF ne] distinct_videosToStore)
  show "find (\<lambda>v. video_id v = video_id r) ?all = Some r"
    if "r \<in> set (getVideos (saveVideos rnd bytes now1 now2 newRecords s))" for r
    using that set_take_subset_js[of newRecords s]
    by (auto simp: getVideos_saveVideos[OF ne] intro: first)
qed

lemma ex_merge_abc:
  "videosToStore [mkVideo ''abc'' 5, mkVideo ''abc'' 6, mkVideo ''xyz'' 7]
     (emptyStore\<lparr>st_videos := Some [mkVideo ''abc'' 1]\<rparr>) =
   [mkVideo ''xyz'' 7, mkVideo ''abc'' 1]"
  by (simp add: videosToStore_def getVideos_def emptyStore_def
      getSettings_def DEFAULT_SETTINGS_def maxVideosOf_def
      deduplicateBy_def mkVideo_def byCapturedAtDesc_def slice0_def Let_def)

theorem dedup_first_occurrence_wins_witness:
  "(let s = emptyStore\<lparr>st_videos := Some [mkVideo ''abc'' 1]\<rparr>;
        newRecords = [mkVideo ''abc'' 5, mkVideo ''abc'' 6, mkVideo ''xyz'' 7]
    in newRecords \<noteq> [] \<and>
       deduplicateBy (getVideos s @ newRecords) video_id = [mkVideo ''abc'' 1, mkVideo ''xyz'' 7] \<and>
       mkVideo ''abc'' 1 \<in> set (getVideos s) \<and>
       getVideos (saveVideos (\<lambda>x. x) 1000 10 11 newRecords s) =
         [mkVideo ''xyz'' 7, mkVideo ''abc'' 1] \<and>
       distinct (map video_id [mkVideo ''xyz'' 7, mkVideo ''abc'' 1]) \<and>
       find (\<lambda>v. video_id v = ''abc'') (getVideos s @ newRecords) = Some (mkVideo ''abc'' 1))"
  using dedup_first_occurrence_wins[of "emptyStore\<lparr>st_videos := Some [mkVideo ''abc'' 1]\<rparr>"
      "[mkVideo ''abc'' 5, mkVideo ''abc'' 6, mkVideo ''xyz'' 7]" "\<lambda>x. x" 1000 10 11]
  by (simp add: getVideos_saveVideos ex_merge_abc)
     (simp add: getVideos_def emptyStore_def deduplicateBy_def mkVideo_def)

subsection \<open>Byte-size eviction\<close>

lemma js_rounding_mono: "js_rounding rnd \<Longrightarrow> x \<le> y \<Longrightarrow> rnd x \<le> rnd y"
  by (simp add: js_rounding_def)

lemma js_rounding_nat: "js_rounding rnd \<Longrightarrow> k < 2 ^ 32 \<Longrightarrow> rnd (of_nat k) = of_nat k"
  by (simp add: js_rounding_def)

lemma js_rounding_consts:
  assumes "js_rounding rnd"
  shows "rnd 0 = 0" "rnd 1 = 1" "rnd 100 = 100" "rnd (1 / 2) = 1 / 2" "rnd (3 / 4) = 3 / 4"
    "rnd (WARNING_THRESHOLD rnd * 100) = 80" "rnd (EVICTION_TARGET rnd * 100) = 60"
proof -
  show "rnd 0 = 0" using js_rounding_nat[OF assms, of 0] by simp
  show "rnd 1 = 1" using js_rounding_nat[OF assms, of 1] by simp
  show "rnd 100 = 100" using js_rounding_nat[OF assms, of 100] by simp
  show "rnd (1 / 2) = 1 / 2" "rnd (3 / 4) = 3 / 4"
    "rnd (WARNING_THRESHOLD rnd * 100) = 80" "rnd (EVICTION_TARGET rnd * 100) = 60"
    using assms by (simp_all add: js_rounding_def WARNING_THRESHOLD_def EVICTION_TARGET_def)
qed

lemma js_rounding_id: "js_rounding (\<lambda>x. x)"
  by (simp add: js_rounding_def)

lemma percentage_le_100:
  assumes R: "js_rounding rnd" and b: "bytes \<le> MAX_SIZE_BYTES"
  shows "percentage (getStorageUsage rnd bytes) \<le> 100"
proof -
  let ?q = "rnd (of_nat bytes / of_nat MAX_SIZE_BYTES)"
  let ?x = "rnd (?q * 100)"
  have "(of_nat bytes :: rat) / of_nat MAX_SIZE_BYTES \<le> 1"
    using b by (simp add: MAX_SIZE_BYTES_def)
  then have "?q \<le> 1"
    using js_rounding_mono[OF R] js_rounding_consts(2)[OF R] by metis
  then have "?q * 100 \<le> 100" by simp
  then have x: "?x \<le> 100"
    using js_rounding_mono[OF R] js_rounding_consts(3)[OF R] by metis
  then have "?x * 100 + 1 / 2 < 10001" by simp
  then have "\<lfloor>?x * 100 + 1 / 2\<rfloor> < 10001"
    using floor_less_iff[of "?x * 100 + 1 / 2" 10001] by simp
  then have "(of_int \<lfloor>?x * 100 + 1 / 2\<rfloor> :: rat) \<le> of_int 10000"
    by (subst of_int_le_iff) linarith
  then have "(of_int \<lfloor>?x * 100 + 1 / 2\<rfloor> :: rat) / 100 \<le> 100" by simp
  then have "rnd (of_int \<lfloor>?x * 100 + 1 / 2\<rfloor> / 100) \<le> 100"
    using js_rounding_mono[OF R] js_rounding_consts(3)[OF R] by metis
  then show ?thesis by (simp add: getStorageUsage_def toFixed2_def Let_def)
qed

lemma ratio_bounds:
  assumes R: "js_rounding rnd" and p: "80 < pct"
  shows "0 \<le> rnd (60 / pct)" "rnd (60 / pct) \<le> 3 / 4"
proof -
  have "0 \<le> 60 / pct" using p by simp
  then show "0 \<le> rnd (60 / pct)"
    using js_rounding_mono[OF R] js_rounding_consts(1)[OF R] by metis
  have "60 / pct \<le> 3 / 4" using p by (simp add: field_simps)
  then show "rnd (60 / pct) \<le> 3 / 4"
    using js_rounding_mono[OF R] js_rounding_consts(5)[OF R] by metis
qed

lemma targetCount_bounds:
  assumes R: "js_rounding rnd" and n: "n < 2 ^ 32" and p: "80 < pct"
  shows "0 \<le> targetCount rnd n pct" "targetCount rnd n pct \<le> int n"
proof -
  let ?r = "rnd (60 / pct)"
  have tc: "targetCount rnd n pct = \<lfloor>rnd (of_nat n * ?r)\<rfloor>"
    by (simp add: targetCount_def js_rounding_consts(7)[OF R])
  note rb = ratio_bounds[OF R p]
  have "0 \<le> of_nat n * ?r" using rb(1) by simp
  then have "0 \<le> rnd (of_nat n * ?r)"
    using js_rounding_mono[OF R] js_rounding_consts(1)[OF R] by metis
  then show "0 \<le> targetCount rnd n pct" by (simp add: tc)
  have "of_nat n * ?r \<le> of_nat n * (3 / 4)"
    using rb(2) by (intro mult_left_mono) simp_all
  also have "\<dots> \<le> of_nat n" by simp
  finally have "rnd (of_nat n * ?r) \<le> of_nat n"
    using js_rounding_mono[OF R] js_rounding_nat[OF R n] by metis
  then have "\<lfloor>rnd (of_nat n * ?r)\<rfloor> \<le> \<lfloor>(of_nat n :: rat)\<rfloor>" by (rule floor_mono)
  then show "targetCount rnd n pct \<le> int n" by (simp add: tc)
qed

lemma targetCount_zero_iff:
  assumes R: "js_rounding rnd" and n: "n < 2 ^ 32" and p: "80 < pct" "pct \<le> 100"
  shows "targetCount rnd n pct = 0 \<longleftrightarrow> n \<le> 1"
proof -
  let ?r = "rnd (60 / pct)"
  have tc: "targetCount rnd n pct = \<lfloor>rnd (of_nat n * ?r)\<rfloor>"
    by (simp add: targetCount_def js_rounding_consts(7)[OF R])
  note rb = ratio_bounds[OF R p(1)]
  have "1 / 2 \<le> 60 / pct" using p by (simp add: field_simps)
  then have half: "1 / 2 \<le> ?r"
    using js_rounding_mono[OF R] js_rounding_consts(4)[OF R] by metis
  show ?thesis
  proof (cases "n \<le> 1")
    case True
    have "of_nat n * ?r \<le> 3 / 4"
    proof -
      have "of_nat n * ?r \<le> 1 * ?r" using True rb(1) by (intro mult_right_mono) simp_all
      with rb(2) show ?thesis by simp
    qed
    then have "rnd (of_nat n * ?r) \<le> 3 / 4"
      using js_rounding_mono[OF R] js_rounding_consts(5)[OF R] by metis
    then have "rnd (of_nat n * ?r) < 1" by simp
    then have lt: "\<lfloor>rnd (of_nat n * ?r)\<rfloor> < 1"
      using floor_less_iff[of "rnd (of_nat n * ?r)" 1] by simp
    have ge: "0 \<le> \<lfloor>rnd (of_nat n * ?r)\<rfloor>"
      using targetCount_bounds(1)[OF R n p(1)] unfolding tc .
    from lt ge have "\<lfloor>rnd (of_nat n * ?r)\<rfloor> = 0" by linarith
    with True show ?thesis by (simp add: tc)
  next
    case False
    then have "(2::rat) \<le> of_nat n" by simp
    then have "2 * (1 / 2) \<le> of_nat n * ?r"
      using half by (intro mult_mono) simp_all
    then have "1 \<le> of_nat n * ?r" by simp
    then have "1 \<le> rnd (of_nat n * ?r)"
      using js_rounding_mono[OF R] js_rounding_consts(2)[OF R] by metis
    then have "1 \<le> \<lfloor>rnd (of_nat n * ?r)\<rfloor>"
      using le_floor_iff[of 1 "rnd (of_nat n * ?r)"] by simp
    then have "\<lfloor>rnd (of_nat n * ?r)\<rfloor> \<noteq> 0" by linarith
    with False show ?thesis by (simp add: tc)
  qed
qed


lemma ex_percentage: "percentage (getStorageUsage (\<lambda>x. x) 9000000) = 8583 / 100"
  by (simp add: getStorageUsage_def toFixed2_def MAX_SIZE_BYTES_def Let_def floor_rat_numeral)

lemma ex_targetCount: "targetCount (\<lambda>x. x) (Suc (Suc (Suc (Suc (Suc 0))))) (8583 / 100) = 3"
  by (simp add: targetCount_def EVICTION_TARGET_def floor_rat_numeral)

text \<open>
  Claim C4: when the usage percentage is above 80, the target count is the floor of
  \<open>currentCount * (60 / percentage)\<close>, each operation rounded as a double; it is never
  negative and never more than the current count, so eviction keeps exactly that many
  records. While the bytes in use are within the 10 MB that the store holds, the target
  count is zero only for a collection of at most one record.
\<close>

theorem eviction_target_count:
  assumes "js_rounding rnd" and "length videos < 2 ^ 32"
    and "percentage (getStorageUsage rnd bytes) > rnd (WARNING_THRESHOLD rnd * 100)"
  shows "(let pct = percentage (getStorageUsage rnd bytes);
              target = targetCount rnd (length videos) pct
          in 80 < pct \<and>
             target = \<lfloor>rnd (of_nat (length videos) * rnd (60 / pct))\<rfloor> \<and>
             0 \<le> target \<and> target \<le> int (length videos) \<and>
             checkAndEvictIfNeeded rnd bytes videos s =
               (take (nat target) videos, s\<lparr>st_videos := Some (take (nat target) videos)\<rparr>) \<and>
             length (take (nat target) videos) = nat target \<and>
             (bytes \<le> MAX_SIZE_BYTES \<longrightarrow> (target = 0 \<longleftrightarrow> length videos \<le> 1)))"
proof -
  let ?pct = "percentage (getStorageUsage rnd bytes)"
  let ?t = "targetCount rnd (length videos) ?pct"
  have p: "80 < ?pct" using assms(3) by (simp add: js_rounding_consts(6)[OF assms(1)])
  have tc: "?t = \<lfloor>rnd (of_nat (length videos) * rnd (60 / ?pct))\<rfloor>"
    by (simp add: targetCount_def js_rounding_consts(7)[OF assms(1)])
  note b = targetCount_bounds[OF assms(1,2) p]
  have ev: "checkAndEvictIfNeeded rnd bytes videos s =
      (take (nat ?t) videos, s\<lparr>st_videos := Some (take (nat ?t) videos)\<rparr>)"
    using assms(3) b(1) by (simp add: checkAndEvictIfNeeded_def Let_def slice0_def)
  have len: "length (take (nat ?t) videos) = nat ?t" using b by simp
  have z: "bytes \<le> MAX_SIZE_BYTES \<longrightarrow> (?t = 0 \<longleftrightarrow> length videos \<le> 1)"
    using targetCount_zero_iff[OF assms(1,2) p] percentage_le_100[OF assms(1)] by blast
  from p tc b ev len z show ?thesis unfolding Let_def by blast
qed


theorem eviction_target_count_witness:
  "js_rounding (\<lambda>x. x) \<and>
   length [mkVideo ''e'' 5, mkVideo ''a'' 4, mkVideo ''b'' 3, mkVideo ''c'' 2, mkVideo ''d'' 1]
     < 2 ^ 32 \<and>
   percentage (getStorageUsage (\<lambda>x. x) 9000000) > WARNING_THRESHOLD (\<lambda>x. x) * 100 \<and>
   9000000 \<le> MAX_SIZE_BYTES \<and>
   targetCount (\<lambda>x. x) 5 (percentage (getStorageUsage (\<lambda>x. x) 9000000)) = 3 \<and>
   fst (checkAndEvictIfNeeded (\<lambda>x. x) 9000000
     [mkVideo ''e'' 5, mkVideo ''a'' 4, mkVideo ''b'' 3, mkVideo ''c'' 2, mkVideo ''d'' 1]
     emptyStore) = [mkVideo ''e'' 5, mkVideo ''a'' 4, mkVideo ''b'' 3]"
  using eviction_target_count[OF js_rounding_id, of
      "[mkVideo ''e'' 5, mkVideo ''a'' 4, mkVideo ''b'' 3, mkVideo ''c'' 2, mkVideo ''d'' 1]"
      9000000 emptyStore]
  by (simp add: js_rounding_id ex_percentage ex_targetCount WARNING_THRESHOLD_def
      MAX_SIZE_BYTES_def targetCount_def EVICTION_TARGET_def floor_rat_numeral)

subsection \<open>The query engine\<close>

lemma mset_insertBy: "mset (insertBy cmp x xs) = add_mset x (mset xs)"
  by (induction xs) auto

lemma mset_js_sort: "mset (js_sort cmp xs) = mset xs"
  by (induction xs) (auto simp: mset_insertBy)

lemma consistent_byTitle: "consistent localeCompare \<Longrightarrow> consistent (byTitle localeCompare)"
  unfolding consistent_def byTitle_def by blast

lemma set_sortVideos_feed: "set (sortVideos_feed localeCompare videos k) = set videos"
  by (simp add: sortVideos_feed_def set_js_sort)

lemma keepVideo_iff:
  "keepVideo toLowerCase f v \<longleftrightarrow>
     (selectedLanguages f = [] \<or>
      set (selectedLanguages f) \<inter> {defaultLanguage v, defaultAudioLanguage v} \<noteq> {}) \<and>
     (selectedCountries f = [] \<or> regionCode v \<in> set (selectedCountries f)) \<and>
     (searchQuery f = [] \<or> sublist (searchQuery f) (toLowerCase (title v)) \<or>
      sublist (searchQuery f) (toLowerCase (channelTitle v)))"
  by (auto simp: keepVideo_def)

lemma handleSearchChange_lowercased:
  "(\<And>x. toLowerCase (toLowerCase x) = toLowerCase x) \<Longrightarrow>
   toLowerCase (searchQuery (handleSearchChange toLowerCase trim input f)) =
   searchQuery (handleSearchChange toLowerCase trim input f)"
  by (simp add: handleSearchChange_def)

lemma applyFilters_storage_membership:
  "v \<in> set (applyFilters localeCompare videos f) \<longleftrightarrow>
     v \<in> set videos \<and>
     (selectedLanguages f = [] \<or> defaultLanguage v \<in> set (selectedLanguages f) \<or>
      defaultAudioLanguage v \<in> set (selectedLanguages f)) \<and>
     (selectedCountries f = [] \<or> regionCode v \<in> set (selectedCountries f))"
  by (auto simp: applyFilters_def sortVideos_def set_js_sort Let_def)

lemma codeUnitCompare_total: "codeUnitCompare a b \<le> 0 \<or> codeUnitCompare b a \<le> 0"
  by (induction a b rule: codeUnitCompare.induct) simp_all


lemma codeUnitCompare_Cons_le:
  "codeUnitCompare (x # xs) (y # ys) \<le> 0 \<longleftrightarrow>
     (of_char x :: nat) < of_char y \<or>
     ((of_char x :: nat) = of_char y \<and> codeUnitCompare xs ys \<le> 0)"
  by (cases "(of_char x :: nat) < of_char y"; cases "(of_char y :: nat) < of_char x") auto

lemma codeUnitCompare_trans:
  "codeUnitCompare a b \<le> 0 \<Longrightarrow> codeUnitCompare b c \<le> 0 \<Longrightarrow> codeUnitCompare a c \<le> 0"
proof (induction a b arbitrary: c rule: codeUnitCompare.induct)
  case 1
  then show ?case by simp
next
  case (2 y ys)
  then show ?case by (cases c) simp_all
next
  case (3 x xs)
  then show ?case by simp
next
  case (4 x xs y ys)
  show ?case
  proof (cases c)
    case Nil
    with "4.prems"(2) show ?thesis by simp
  next
    case (Cons z zs)
    from "4.prems"(1) have xy: "(of_char x :: nat) < of_char y \<or>
        ((of_char x :: nat) = of_char y \<and> codeUnitCompare xs ys \<le> 0)"
      by (simp only: codeUnitCompare_Cons_le)
    from "4.prems"(2) have yz: "(of_char y :: nat) < of_char z \<or>
        ((of_char y :: nat) = of_char z \<and> codeUnitCompare ys zs \<le> 0)"
      unfolding Cons by (simp only: codeUnitCompare_Cons_le)
    show ?thesis
    proof (cases "(of_char x :: nat) < of_char z")
      case True
      then show ?thesis unfolding Cons by (simp only: codeUnitCompare_Cons_le) blast
    next
      case False
      with xy yz have e: "(of_char x :: nat) = of_char y" "(of_char y :: nat) = of_char z"
        and l: "codeUnitCompare xs ys \<le> 0" "codeUnitCompare ys zs \<le> 0"
        by linarith+
      have "codeUnitCompare xs zs \<le> 0"
        using "4.IH"[of zs] e l by simp
      with e show ?thesis unfolding Cons by (simp only: codeUnitCompare_Cons_le) simp
    qed
  qed
qed

lemma consistent_codeUnitCompare: "consistent codeUnitCompare"
  unfolding consistent_def using codeUnitCompare_total codeUnitCompare_trans by blast

text \<open>
  Claim C5: a record is in the list that the feed page shows exactly when it is in the
  collection and passes the language filter, the country filter and the search filter
  together. The search query of the filter object is in lowercase form already:
  \<open>handleSearchChange\<close> stores it so, and \<open>applyFilters\<close> compares it as stored.
  \<open>applyFilters\<close> of the storage manager has the language and the country filter only;
  for a filter object without a search query it keeps the same records.
\<close>

theorem query_filters_conjunctive:
  assumes "toLowerCase (searchQuery f) = searchQuery f"
  shows "(v \<in> set (applyFilters_feed toLowerCase localeCompare allVideos f) \<longleftrightarrow>
            v \<in> set allVideos \<and>
            (selectedLanguages f = [] \<or>
             set (selectedLanguages f) \<inter> {defaultLanguage v, defaultAudioLanguage v} \<noteq> {}) \<and>
            (selectedCountries f = [] \<or> regionCode v \<in> set (selectedCountries f)) \<and>
            (searchQuery f = [] \<or>
             sublist (toLowerCase (searchQuery f)) (toLowerCase (title v)) \<or>
             sublist (toLowerCase (searchQuery f)) (toLowerCase (channelTitle v)))) \<and>
         (searchQuery f = [] \<longrightarrow>
            (v \<in> set (applyFilters localeCompare allVideos f) \<longleftrightarrow>
               v \<in> set (applyFilters_feed toLowerCase localeCompare allVideos f)))"
proof -
  have feed: "v \<in> set (applyFilters_feed toLowerCase localeCompare allVideos f) \<longleftrightarrow>
            v \<in> set allVideos \<and>
            (selectedLanguages f = [] \<or>
             set (selectedLanguages f) \<inter> {defaultLanguage v, defaultAudioLanguage v} \<noteq> {}) \<and>
            (selectedCountries f = [] \<or> regionCode v \<in> set (selectedCountries f)) \<and>
            (searchQuery f = [] \<or>
             sublist (toLowerCase (searchQuery f)) (toLowerCase (title v)) \<or>
             sublist (toLowerCase (searchQuery f)) (toLowerCase (channelTitle v)))"
    unfolding assms applyFilters_feed_def set_sortVideos_feed
    by (simp add: keepVideo_iff)
  have "v \<in> set (applyFilters localeCompare allVideos f) \<longleftrightarrow>
          v \<in> set (applyFilters_feed toLowerCase localeCompare allVideos f)"
    if "searchQuery f = []"
    unfolding feed applyFilters_storage_membership using that by auto
  with feed show ?thesis by blast
qed

lemma ex_lower: "asciiLower ''cat'' = ''cat''" "asciiLower ''Cat Video'' = ''cat video''"
  "asciiLower ''Dog'' = ''dog''" "asciiLower [] = []"
  by (simp_all add: asciiLower_def)

lemma ex_keep: "keepVideo asciiLower exFilters exCat" "\<not> keepVideo asciiLower exFilters exDog"
  by (simp_all add: keepVideo_def exFilters_def exCat_def exDog_def mkVideo_def ex_lower
      sublist_code)

lemma ex_feed:
  "applyFilters_feed asciiLower codeUnitCompare [exDog, exCat] exFilters = [exCat]"
  by (simp add: applyFilters_feed_def ex_keep)
     (simp add: sortVideos_feed_def exFilters_def)

theorem query_filters_conjunctive_witness:
  "asciiLower (searchQuery exFilters) = searchQuery exFilters \<and>
   sublist (asciiLower (searchQuery exFilters)) (asciiLower (title exCat)) \<and>
   exCat \<in> set [exDog, exCat] \<and>
   applyFilters_feed asciiLower codeUnitCompare [exDog, exCat] exFilters = [exCat] \<and>
   searchQuery (exFilters\<lparr>searchQuery := []\<rparr>) = [] \<and>
   exDog \<in> set (applyFilters codeUnitCompare [exDog, exCat] (exFilters\<lparr>searchQuery := []\<rparr>))"
proof -
  have q: "asciiLower (searchQuery exFilters) = searchQuery exFilters"
    by (simp add: exFilters_def ex_lower)
  have s: "sublist (asciiLower (searchQuery exFilters)) (asciiLower (title exCat))"
    by (simp add: exFilters_def exCat_def mkVideo_def ex_lower sublist_code)
  have e: "asciiLower (searchQuery (exFilters\<lparr>searchQuery := []\<rparr>)) =
           searchQuery (exFilters\<lparr>searchQuery := []\<rparr>)"
    by (simp add: ex_lower)
  have "exDog \<in> set (applyFilters_feed asciiLower codeUnitCompare [exDog, exCat]
          (exFilters\<lparr>searchQuery := []\<rparr>))"
    using query_filters_conjunctive[of asciiLower "exFilters\<lparr>searchQuery := []\<rparr>" exDog
        codeUnitCompare "[exDog, exCat]", OF e]
    by (simp add: exFilters_def exDog_def mkVideo_def)
  with query_filters_conjunctive[of asciiLower "exFilters\<lparr>searchQuery := []\<rparr>" exDog
        codeUnitCompare "[exDog, exCat]", OF e]
  have d: "exDog \<in> set (applyFilters codeUnitCompare [exDog, exCat]
          (exFilters\<lparr>searchQuery := []\<rparr>))"
    by simp
  have "exCat \<in> set (applyFilters_feed asciiLower codeUnitCompare [exDog, exCat] exFilters)"
    using query_filters_conjunctive[of asciiLower exFilters exCat codeUnitCompare "[exDog, exCat]",
        OF q] s
    by (simp add: exFilters_def exCat_def mkVideo_def)
  with q s d ex_feed show ?thesis by simp
qed


lemma sortVideos_feed_unrecognised:
  "k \<notin> {Some ''date'', Some ''views'', Some ''title''} \<Longrightarrow>
   sortVideos_feed localeCompare videos k = videos"
  by (simp add: sortVideos_feed_def)

lemma sortVideos_feed_sorted_input:
  assumes "k \<notin> {Some ''date'', Some ''views'', Some ''title''}"
    and "sorted_wrt (\<lambda>a b. capturedAt b \<le> capturedAt a) videos"
  shows "sortVideos_feed localeCompare videos k = sortVideos localeCompare videos (Some ''date'')"
proof -
  have "sorted_wrt (\<lambda>a b. byCapturedAtDesc a b \<le> 0) videos"
    using assms(2) by (simp add: byCapturedAtDesc_def)
  then have "js_sort byCapturedAtDesc videos = videos"
    by (rule js_sort_sorted_id[OF consistent_byCapturedAtDesc])
  then show ?thesis
    using assms(1) by (simp add: sortVideos_feed_def sortVideos_def)
qed

lemma stable_date:
  "filter (\<lambda>v. capturedAt v = t) (js_sort byCapturedAtDesc videos) =
   filter (\<lambda>v. capturedAt v = t) videos"
proof -
  have "(\<lambda>y. byCapturedAtDesc (mkVideo [] t) y \<le> 0 \<and> byCapturedAtDesc y (mkVideo [] t) \<le> 0) =
        (\<lambda>v. capturedAt v = t)"
    by (auto simp: byCapturedAtDesc_def mkVideo_def)
  with js_sort_stable[OF consistent_byCapturedAtDesc, of "mkVideo [] t" videos]
  show ?thesis by simp
qed

lemma stable_views:
  "filter (\<lambda>v. viewCount v = n) (js_sort byViewCountDesc videos) =
   filter (\<lambda>v. viewCount v = n) videos"
proof -
  let ?a = "(mkVideo [] 0)\<lparr>viewCount := n\<rparr>"
  have "(\<lambda>y. byViewCountDesc ?a y \<le> 0 \<and> byViewCountDesc y ?a \<le> 0) = (\<lambda>v. viewCount v = n)"
    by (auto simp: byViewCountDesc_def)
  with js_sort_stable[OF consistent_byViewCountDesc, of ?a videos]
  show ?thesis by simp
qed

lemma stable_title:
  assumes "consistent localeCompare"
  shows "filter (\<lambda>v. localeCompare x (title v) \<le> 0 \<and> localeCompare (title v) x \<le> 0)
           (js_sort (byTitle localeCompare) videos) =
         filter (\<lambda>v. localeCompare x (title v) \<le> 0 \<and> localeCompare (title v) x \<le> 0) videos"
  using js_sort_stable[OF consistent_byTitle[OF assms], of "(mkVideo [] 0)\<lparr>title := x\<rparr>" videos]
  by (simp add: byTitle_def)

text \<open>
  Claim C6: \<open>sortVideos\<close> of the storage manager orders by capture timestamp
  descending for \<open>date\<close>, by view count descending for \<open>views\<close>, and by
  \<open>localeCompare\<close> on the titles ascending for \<open>title\<close>; any other key, or none,
  sorts as \<open>date\<close>. The result is a rearrangement of the input in which records with
  equal sort keys keep their order. On the three keys \<open>sortVideos\<close> of the feed page
  gives the same list.
\<close>

theorem sortVideos_orders:
  assumes "consistent localeCompare"
  shows "sorted_wrt (\<lambda>a b. capturedAt b \<le> capturedAt a)
           (sortVideos localeCompare videos (Some ''date'')) \<and>
         sorted_wrt (\<lambda>a b. viewCount b \<le> viewCount a)
           (sortVideos localeCompare videos (Some ''views'')) \<and>
         sorted_wrt (\<lambda>a b. localeCompare (title a) (title b) \<le> 0)
           (sortVideos localeCompare videos (Some ''title'')) \<and>
         (k \<notin> {Some ''date'', Some ''views'', Some ''title''} \<longrightarrow>
            sortVideos localeCompare videos k = sortVideos localeCompare videos (Some ''date'')) \<and>
         mset (sortVideos localeCompare videos k) = mset videos \<and>
         filter (\<lambda>v. capturedAt v = t) (sortVideos localeCompare videos (Some ''date'')) =
           filter (\<lambda>v. capturedAt v = t) videos \<and>
         filter (\<lambda>v. viewCount v = n) (sortVideos localeCompare videos (Some ''views'')) =
           filter (\<lambda>v. viewCount v = n) videos \<and>
         filter (\<lambda>v. localeCompare x (title v) \<le> 0 \<and> localeCompare (title v) x \<le> 0)
             (sortVideos localeCompare videos (Some ''title'')) =
           filter (\<lambda>v. localeCompare x (title v) \<le> 0 \<and> localeCompare (title v) x \<le> 0) videos \<and>
         (k \<in> {Some ''date'', Some ''views'', Some ''title''} \<longrightarrow>
            sortVideos_feed localeCompare videos k = sortVideos localeCompare videos k)"
proof (intro conjI impI)
  show "sorted_wrt (\<lambda>a b. capturedAt b \<le> capturedAt a)
           (sortVideos localeCompare videos (Some ''date''))"
    by (simp add: sortVideos_def sorted_unique)
  show "sorted_wrt (\<lambda>a b. viewCount b \<le> viewCount a)
           (sortVideos localeCompare videos (Some ''views''))"
    using sorted_js_sort[OF consistent_byViewCountDesc, of videos]
    by (simp add: sortVideos_def byViewCountDesc_def)
  show "sorted_wrt (\<lambda>a b. localeCompare (title a) (title b) \<le> 0)
           (sortVideos localeCompare videos (Some ''title''))"
    using sorted_js_sort[OF consistent_byTitle[OF assms], of videos]
    by (simp add: sortVideos_def byTitle_def)
  show "sortVideos localeCompare videos k = sortVideos localeCompare videos (Some ''date'')"
    if "k \<notin> {Some ''date'', Some ''views'', Some ''title''}"
    using that by (simp add: sortVideos_def)
  show "mset (sortVideos localeCompare videos k) = mset videos"
    by (simp add: sortVideos_def mset_js_sort)
  show "filter (\<lambda>v. capturedAt v = t) (sortVideos localeCompare videos (Some ''date'')) =
           filter (\<lambda>v. capturedAt v = t) videos"
    by (simp add: sortVideos_def stable_date)
  show "filter (\<lambda>v. viewCount v = n) (sortVideos localeCompare videos (Some ''views'')) =
           filter (\<lambda>v. viewCount v = n) videos"
    by (simp add: sortVideos_def stable_views)
  show "filter (\<lambda>v. localeCompare x (title v) \<le> 0 \<and> localeCompare (title v) x \<le> 0)
             (sortVideos localeCompare videos (Some ''title'')) =
           filter (\<lambda>v. localeCompare x (title v) \<le> 0 \<and> localeCompare (title v) x \<le> 0) videos"
    by (simp add: sortVideos_def stable_title[OF assms])
  show "sortVideos_feed localeCompare videos k = sortVideos localeCompare videos k"
    if "k \<in> {Some ''date'', Some ''views'', Some ''title''}"
    using that by (auto simp: sortVideos_def sortVideos_feed_def)
qed

lemma ex_cmp:
  "codeUnitCompare ''a'' ''b'' = - 1" "codeUnitCompare ''b'' ''a'' = 1"
  "codeUnitCompare ''b'' ''b'' = 0" "codeUnitCompare ''a'' ''a'' = 0"
  by simp_all

lemma ex_sort_date: "js_sort byCapturedAtDesc [exA, exB, exC] = [exB, exC, exA]"
  by (simp add: byCapturedAtDesc_def exA_def exB_def exC_def mkVideo_def)

lemma ex_sort_views: "js_sort byViewCountDesc [exA, exB, exC] = [exC, exA, exB]"
  by (simp add: byViewCountDesc_def exA_def exB_def exC_def mkVideo_def)

lemma ex_sort_title: "js_sort (byTitle codeUnitCompare) [exA, exB, exC] = [exB, exA, exC]"
  by (simp add: byTitle_def exA_def exB_def exC_def mkVideo_def)

theorem sortVideos_orders_witness:
  "consistent codeUnitCompare \<and>
   sortVideos codeUnitCompare [exA, exB, exC] (Some ''date'') = [exB, exC, exA] \<and>
   sortVideos codeUnitCompare [exA, exB, exC] (Some ''views'') = [exC, exA, exB] \<and>
   sortVideos codeUnitCompare [exA, exB, exC] (Some ''title'') = [exB, exA, exC] \<and>
   Some ''newest'' \<notin> {Some ''date'', Some ''views'', Some ''title''} \<and>
   sortVideos codeUnitCompare [exA, exB, exC] (Some ''newest'') = [exB, exC, exA] \<and>
   viewCount exA = viewCount exB \<and>
   Some ''views'' \<in> {Some ''date'', Some ''views'', Some ''title''} \<and>
   sortVideos_feed codeUnitCompare [exA, exB, exC] (Some ''views'') = [exC, exA, exB]"
proof -
  have k: "Some ''newest'' \<notin> {Some ''date'', Some ''views'', Some ''title''}"
    by simp
  have d: "sortVideos codeUnitCompare [exA, exB, exC] (Some ''date'') = [exB, exC, exA]"
    unfolding sortVideos_def ex_sort_date by simp
  have v: "sortVideos codeUnitCompare [exA, exB, exC] (Some ''views'') = [exC, exA, exB]"
    unfolding sortVideos_def ex_sort_views by simp
  have t: "sortVideos codeUnitCompare [exA, exB, exC] (Some ''title'') = [exB, exA, exC]"
    unfolding sortVideos_def ex_sort_title by simp
  from sortVideos_orders[OF consistent_codeUnitCompare, of "[exA, exB, exC]" "Some ''newest''"
      0 0 "[]"] k
  have "sortVideos codeUnitCompare [exA, exB, exC] (Some ''newest'') =
        sortVideos codeUnitCompare [exA, exB, exC] (Some ''date'')"
    by blast
  with d have u: "sortVideos codeUnitCompare [exA, exB, exC] (Some ''newest'') = [exB, exC, exA]"
    by simp
  have e: "viewCount exA = viewCount exB" by (simp add: exA_def exB_def)
  have k': "Some ''views'' \<in> {Some ''date'', Some ''views'', Some ''title''}"
    by simp
  from sortVideos_orders[OF consistent_codeUnitCompare, of "[exA, exB, exC]" "Some ''views''"
      0 0 "[]"] k'
  have "sortVideos_feed codeUnitCompare [exA, exB, exC] (Some ''views'') =
        sortVideos codeUnitCompare [exA, exB, exC] (Some ''views'')"
    by blast
  with v have f: "sortVideos_feed codeUnitCompare [exA, exB, exC] (Some ''views'') =
      [exC, exA, exB]"
    by simp
  from consistent_codeUnitCompare k d v t u e k' f show ?thesis by blast
qed

subsection \<open>The remote metadata client\<close>

lemma fetchLoop_outcomes:
  "fst (fetchLoop net key chunks allVideos w) =
     allVideos @ concat (map recordsOf (chunkOutcomes net key chunks w))"
proof (induction chunks arbitrary: allVideos w)
  case Nil
  then show ?case by simp
next
  case (Cons chunk chunks)
  obtain r w' where c: "fetchChunk net chunk key w = (r, w')"
    by (cases "fetchChunk net chunk key w") auto
  show ?case
  proof (cases r)
    case (Inl e)
    with c Cons.IH[of allVideos w'] show ?thesis by simp
  next
    case (Inr videos)
    with c Cons.IH[of "allVideos @ videos" w'] show ?thesis by simp
  qed
qed

lemma length_chunkOutcomes: "length (chunkOutcomes net key chunks w) = length chunks"
  by (induction chunks arbitrary: w) (auto split: prod.splits)

lemma chunkArray_BATCH_SIZE: "chunkArray videoIds BATCH_SIZE = Some (chunkFrom 0 videoIds 50)"
  by (simp add: chunkArray_def BATCH_SIZE_def)

text \<open>
  Claim C7: \<open>fetchVideoDetails\<close> returns the empty list for the empty identifier list,
  and signals the missing credential for an empty API key and a non-empty identifier
  list. In both cases it returns before any request: the requests issued and the store
  are what they were.
\<close>

theorem fetchVideoDetails_fails_fast:
  "fetchVideoDetails net [] key w = Some (Inr [], w) \<and>
   (videoIds \<noteq> [] \<longrightarrow> fetchVideoDetails net videoIds [] w = Some (Inl MissingCredential, w))"
  by (simp add: fetchVideoDetails_def)

theorem fetchVideoDetails_fails_fast_witness:
  "[''abc''] \<noteq> [] \<and> requests exWorld = [] \<and>
   fetchVideoDetails exNet [] ''k'' exWorld = Some (Inr [], exWorld) \<and>
   fetchVideoDetails exNet [''abc''] [] exWorld = Some (Inl MissingCredential, exWorld)"
  using fetchVideoDetails_fails_fast[of exNet "''k''" exWorld "[''abc'']"]
  by (simp add: exWorld_def)

text \<open>
  Claim C8: with identifiers and an API key, \<open>fetchVideoDetails\<close> always returns a
  list, never an error. Every chunk is tried, in order, and the list is the concatenation,
  in chunk order, of the records of the chunks whose requests went through; a chunk that
  failed adds nothing.
\<close>

theorem fetchVideoDetails_isolates_chunk_failure:
  assumes "videoIds \<noteq> []" and "key \<noteq> []"
  shows "\<exists>w'. fetchVideoDetails net videoIds key w =
            Some (Inr (concat (map recordsOf
                    (chunkOutcomes net key (chunkFrom 0 videoIds BATCH_SIZE) w))), w') \<and>
         length (chunkOutcomes net key (chunkFrom 0 videoIds BATCH_SIZE) w) =
           length (chunkFrom 0 videoIds BATCH_SIZE)"
proof -
  obtain vs w' where l: "fetchLoop net key (chunkFrom 0 videoIds 50) [] w = (vs, w')"
    by (cases "fetchLoop net key (chunkFrom 0 videoIds 50) [] w") auto
  from l fetchLoop_outcomes[of net key "chunkFrom 0 videoIds 50" "[]" w]
  have vs: "vs = concat (map recordsOf (chunkOutcomes net key (chunkFrom 0 videoIds 50) w))"
    by simp
  have "fetchVideoDetails net videoIds key w = Some (Inr vs, w')"
    using assms l by (simp add: fetchVideoDetails_def chunkArray_BATCH_SIZE)
  with vs show ?thesis by (simp add: length_chunkOutcomes BATCH_SIZE_def)
qed


lemma ex_chunks:
  "chunkFrom 0 (replicate 50 ''a'' @ [''b'']) 50 = [replicate 50 ''a'', [''b'']]"
proof -
  have a: "chunkFrom 51 (replicate 50 ''a'' @ [''b'']) 50 = []"
    by (subst chunkFrom.simps) simp
  have b: "chunkFrom 50 (replicate 50 ''a'' @ [''b'']) 50 = [[''b'']]"
    by (subst chunkFrom.simps) (simp add: a)
  show ?thesis
    by (subst chunkFrom.simps) (simp add: b)
qed

lemma ex_chunk_a:
  "fetchChunk exNet (replicate 50 ''a'') ''k'' w =
     (Inl (RemoteRequestFailed 403 (Some ''quotaExceeded'')),
      w\<lparr>requests := requests w @ [VideosRequest (replicate 50 ''a'') ''k'']\<rparr>)"
proof -
  have "replicate 50 ''a'' \<noteq> [''b'']"
  proof
    assume "replicate 50 ''a'' = [''b'']"
    then have "length (replicate 50 ''a'') = length [''b'']" by (rule arg_cong)
    then show False by simp
  qed
  then show ?thesis
    by (simp add: fetchChunk_def fetchVideoBatch_def exNet_def Let_def)
qed

lemma ex_chunk_b:
  "fetchChunk exNet [''b''] ''k'' w =
     (Inr [mkVideo ''b'' 1],
      w\<lparr>requests := requests w @ [VideosRequest [''b''] ''k'', ChannelsRequest [[]] ''k'']\<rparr>)"
  by (simp add: fetchChunk_def fetchVideoBatch_def fetchChannelDetails_def exNet_def Let_def
      deduplicateBy_def mkVideo_def mergeCountry_def)

lemma ex_outcomes:
  "chunkOutcomes exNet ''k'' [replicate 50 ''a'', [''b'']] exWorld =
     [Inl (RemoteRequestFailed 403 (Some ''quotaExceeded'')), Inr [mkVideo ''b'' 1]]"
  by (simp add: ex_chunk_a ex_chunk_b)

theorem fetchVideoDetails_isolates_chunk_failure_witness:
  "replicate 50 ''a'' @ [''b''] \<noteq> [] \<and> ''k'' \<noteq> [] \<and>
   chunkFrom 0 (replicate 50 ''a'' @ [''b'']) BATCH_SIZE = [replicate 50 ''a'', [''b'']] \<and>
   chunkOutcomes exNet ''k'' [replicate 50 ''a'', [''b'']] exWorld =
     [Inl (RemoteRequestFailed 403 (Some ''quotaExceeded'')), Inr [mkVideo ''b'' 1]] \<and>
   map_option fst (fetchVideoDetails exNet (replicate 50 ''a'' @ [''b'']) ''k'' exWorld) =
     Some (Inr [mkVideo ''b'' 1])"
proof -
  have h1: "replicate 50 ''a'' @ [''b''] \<noteq> []" by simp
  have h2: "''k'' \<noteq> []" by simp
  have c: "chunkFrom 0 (replicate 50 ''a'' @ [''b'']) BATCH_SIZE = [replicate 50 ''a'', [''b'']]"
    unfolding BATCH_SIZE_def by (rule ex_chunks)
  from fetchVideoDetails_isolates_chunk_failure[OF h1 h2, of exNet exWorld]
  obtain w' where "fetchVideoDetails exNet (replicate 50 ''a'' @ [''b'']) ''k'' exWorld =
      Some (Inr (concat (map recordsOf
        (chunkOutcomes exNet ''k'' (chunkFrom 0 (replicate 50 ''a'' @ [''b'']) BATCH_SIZE)
           exWorld))), w')"
    by blast
  then have "fetchVideoDetails exNet (replicate 50 ''a'' @ [''b'']) ''k'' exWorld =
      Some (Inr [mkVideo ''b'' 1], w')"
    unfolding c ex_outcomes by simp
  then have "map_option fst (fetchVideoDetails exNet (replicate 50 ''a'' @ [''b'']) ''k'' exWorld)
      = Some (Inr [mkVideo ''b'' 1])"
    by simp
  with h1 h2 c ex_outcomes show ?thesis by blast
qed

end
